(* ===== verification/Prelude.thy ===== *)
theory Prelude
  imports Main "HOL-Library.Sublist"
begin

text \<open>
  Shared vocabulary of the Reacord development: the names of renderer and container
  identities, the exception-and-state computations every operation of the model is
  written in, and the generic list facts on identity-based removal that the pool proofs
  use.  A JavaScript method that mutates \<open>this\<close> and may throw is modelled as a
  function from the state to a result (\<open>Inl\<close> the thrown error, \<open>Inr\<close> the returned
  value) and the state after the call; mutations made before a throw are kept in that
  state, as they are in JavaScript.
\<close>

section \<open>Identities\<close>

text \<open>
  JavaScript compares renderers and containers by object identity (\<open>!==\<close>).  Objects
  are modelled by the number under which they were allocated.
\<close>

type_synonym rid = nat
type_synonym cid = nat

section \<open>Exception-and-state computations\<close>

type_synonym ('e, 'a, 's) exn = "'s \<Rightarrow> ('e + 'a) \<times> 's"

named_theorems exn_simps "unfolding rules of the exception-state combinators"

definition ereturn :: "'a \<Rightarrow> ('e, 'a, 's) exn" where
  "ereturn a s = (Inr a, s)"

definition eraise :: "'e \<Rightarrow> ('e, 'a, 's) exn" where
  "eraise e s = (Inl e, s)"

definition ebind :: "('e, 'a, 's) exn \<Rightarrow> ('a \<Rightarrow> ('e, 'b, 's) exn) \<Rightarrow> ('e, 'b, 's) exn" where
  "ebind m f s = (case m s of (Inl e, s') \<Rightarrow> (Inl e, s') | (Inr a, s') \<Rightarrow> f a s')"

definition emodify :: "('s \<Rightarrow> 's) \<Rightarrow> ('e, unit, 's) exn" where
  "emodify g s = (Inr (), g s)"

lemmas [exn_simps] = ereturn_def eraise_def emodify_def

lemma ebind_Inr: "m s = (Inr a, s') \<Longrightarrow> ebind m f s = f a s'"
  by (simp add: ebind_def)

lemma ebind_Inl: "m s = (Inl e, s') \<Longrightarrow> ebind m f s = (Inl e, s')"
  by (simp add: ebind_def)

lemma ebind_ereturn [simp]: "ebind (ereturn a) f = f a"
  by (simp add: fun_eq_iff ebind_def ereturn_def)

lemma ebind_emodify [simp]: "ebind (emodify g) f s = f () (g s)"
  by (simp add: ebind_def emodify_def)

lemma ebind_eraise [simp]: "ebind (eraise e) f s = (Inl e, s)"
  by (simp add: ebind_def eraise_def)

lemma ebind_ereturn_right:
  "ebind m (\<lambda>_. ereturn a) s = (case m s of (Inl e, s') \<Rightarrow> (Inl e, s') | (Inr _, s') \<Rightarrow> (Inr a, s'))"
  by (simp add: ebind_def ereturn_def split: prod.splits sum.splits)

lemma ebind_assoc: "ebind (ebind m f) g = ebind m (\<lambda>a. ebind (f a) g)"
  by (simp add: fun_eq_iff ebind_def split: prod.splits sum.splits)

lemma ebind_cases:
  obtains (Inl) e s' where "m s = (Inl e, s')" and "ebind m f s = (Inl e, s')"
  | (Inr) a s' where "m s = (Inr a, s')" and "ebind m f s = f a s'"
  by (cases "m s" rule: prod.exhaust, rename_tac r s', case_tac r) (auto simp: ebind_def)

text \<open>
  Two computations over different states are related through an abstraction: a map
  \<open>h\<close> of the states and a map \<open>ge\<close> of the errors.  \<open>eabs ge h\<close> abstracts an outcome;
  a concrete computation refines an abstract one when abstracting its outcome on \<open>s\<close>
  gives the abstract computation's outcome on \<open>h s\<close>.  The rules below compose this
  along the combinators, as a compiler proof composes its per-construct lemmas.
\<close>

definition eabs :: "('e \<Rightarrow> 'f) \<Rightarrow> ('s \<Rightarrow> 't) \<Rightarrow> ('e + 'a) \<times> 's \<Rightarrow> ('f + 'a) \<times> 't" where
  "eabs ge h r = (map_sum ge id (fst r), h (snd r))"

named_theorems eabs_rules "refinement rules of the exception-state combinators"

lemma eabs_pair [simp]: "eabs ge h (r, s) = (map_sum ge id r, h s)"
  by (simp add: eabs_def)

lemma eabs_ereturn [eabs_rules]: "eabs ge h (ereturn a s) = ereturn a (h s)"
  by (simp add: eabs_def ereturn_def)

lemma eabs_emodify [eabs_rules]:
  "h (g s) = g' (h s) \<Longrightarrow> eabs ge h (emodify g s) = emodify g' (h s)"
  by (simp add: eabs_def emodify_def)

lemma eabs_ebind [eabs_rules]:
  assumes "eabs ge h (m s) = m' (h s)" and "\<And>a s. eabs ge h (f a s) = f' a (h s)"
  shows "eabs ge h (ebind m f s) = ebind m' f' (h s)"
proof (cases "m s" rule: prod.exhaust)
  case (Pair r s1)
  with assms(1) have m': "m' (h s) = (map_sum ge id r, h s1)" by (simp add: eabs_def)
  show ?thesis
  proof (cases r)
    case (Inl e)
    with Pair m' show ?thesis by (simp add: eabs_def ebind_def)
  next
    case (Inr a)
    with Pair m' assms(2) [of a s1] show ?thesis by (simp add: ebind_def)
  qed
qed

text \<open>The result of a computation, and whether it threw.\<close>

definition issued :: "'e + 'a \<Rightarrow> 'a list" where
  "issued r = (case r of Inl _ \<Rightarrow> [] | Inr a \<Rightarrow> [a])"

lemma issued_simps [simp]: "issued (Inl e) = []" "issued (Inr a) = [a]"
  by (simp_all add: issued_def)

lemma issued_map_sum [simp]: "issued (map_sum f id r) = issued r"
  by (cases r) simp_all

text \<open>A map stays injective on its domain when a key is bound to a value it does not hold yet.\<close>

lemma inj_on_map_upd_fresh:
  "inj_on m (dom m) \<Longrightarrow> b \<notin> ran m \<Longrightarrow> inj_on (m(a \<mapsto> b)) (dom (m(a \<mapsto> b)))"
  by (auto simp: inj_on_def ran_def)

section \<open>Removal by identity\<close>

text \<open>
  The source removes a renderer with \<open>filter(it => it !== renderer)\<close>, which drops
  every occurrence.  On a list without duplicates this is the removal of one element,
  and removing the head is \<open>tl\<close>.
\<close>

named_theorems pool_simps "list facts on the renderer pool"

lemma filter_neq_absent [pool_simps]:
  "x \<notin> set xs \<Longrightarrow> filter (\<lambda>it. it \<noteq> x) xs = xs"
  by (induction xs) auto

lemma filter_neq_remove1 [pool_simps]:
  "distinct xs \<Longrightarrow> filter (\<lambda>it. it \<noteq> x) xs = remove1 x xs"
  by (induction xs) (auto simp: filter_neq_absent remove1_idem)

lemma filter_neq_hd [pool_simps]:
  "distinct (x # xs) \<Longrightarrow> filter (\<lambda>it. it \<noteq> x) (x # xs) = xs"
  by (simp add: filter_neq_absent)

lemma filter_neq_idem [pool_simps]:
  "filter (\<lambda>it. it \<noteq> x) (filter (\<lambda>it. it \<noteq> x) xs) = filter (\<lambda>it. it \<noteq> x) xs"
  by (induction xs) auto

lemma length_filter_neq_member:
  "x \<in> set xs \<Longrightarrow> length (filter (\<lambda>it. it \<noteq> x) xs) < length xs"
  by (induction xs) (auto intro: le_less_trans [OF length_filter_le])

lemma set_filter_neq [pool_simps]: "set (filter (\<lambda>it. it \<noteq> x) xs) = set xs - {x}"
  by auto

end
