(* ===== verification/Renderer.thy ===== *)
theory Renderer
  imports Prelude
begin

text \<open>
  The renderer capability contract (spec section 4.1) and the state of a running
  program.  Concrete renderers (\<open>ChannelMessageRenderer\<close>, \<open>CommandReplyRenderer\<close>)
  and the React reconciler are outside \<open>src/\<close>; the core only calls them.  Their
  replies are an environment \<open>E\<close>: a function from the history of calls made so far
  and the next call to the reply (a boolean result, or a throw).  Every theorem of the
  development holds for every such environment unless it says otherwise, so a renderer
  whose answers depend on what it has been told before is covered.
\<close>

section \<open>Configuration, instances and content\<close>

text \<open>\<open>ReacordConfig\<close> (src/library/core/reacord.ts, lines 12-18): an optional number.\<close>

record reacord_config =
  maxInstances :: "int option"

text \<open>
  \<open>ReacordInstance\<close> is a bundle of closures over one renderer and one reconciler
  container; the record holds exactly what they capture.
\<close>

record reacord_instance =
  inst_renderer :: rid
  inst_container :: cid

text \<open>
  The React element passed to \<open>reconciler.updateContainer\<close>: the caller's content as
  it is (src/library variant), or wrapped in \<open><InstanceProvider value={instance}>\<close>
  (src/packages variant).
\<close>

datatype 'c react_node = Content 'c | InstanceProvider reacord_instance 'c

section \<open>Calls to the external collaborators\<close>

text \<open>
  Every effect of the core on the outside world is one of these calls, on a renderer
  named by its identity:
  \<^item> \<open>ApplyDiff r old new\<close>: the reconciler forwards to renderer \<open>r\<close> the operations
    that turn the previously applied element \<open>old\<close> (\<open>None\<close>: nothing yet) into \<open>new\<close>;
  \<^item> \<open>HandleComponentInteraction r i\<close>: \<open>renderer.handleComponentInteraction(i)\<close>;
  \<^item> \<open>Deactivate r\<close>, \<open>Destroy r\<close>: \<open>renderer.deactivate()\<close>, \<open>renderer.destroy()\<close>.
\<close>

datatype ('c, 'i) call =
    ApplyDiff rid "'c react_node option" "'c react_node"
  | HandleComponentInteraction rid 'i
  | Deactivate rid
  | Destroy rid

datatype reply = Returns bool | Throws

type_synonym ('c, 'i) env = "('c, 'i) call list \<Rightarrow> ('c, 'i) call \<Rightarrow> reply"

text \<open>
  What a call of the core can throw: an error raised by a collaborator (the call that
  raised it), or a \<open>TypeError\<close> of the core itself (a method called on \<open>undefined\<close>).
\<close>

datatype ('c, 'i) error = TypeError | Raised "('c, 'i) call"

text \<open>The renderer objects the facade allocates (\<open>new ChannelMessageRenderer(channel)\<close>).\<close>

datatype 'd renderer_obj = ChannelMessageRenderer 'd | CommandReplyRenderer 'd

text \<open>A reconciler container: the renderer it is bound to and the last element applied.\<close>

record 'c session =
  sess_renderer :: rid
  sess_content :: "'c react_node option"

section \<open>The state of a running program\<close>

text \<open>
  \<open>renderers\<close> and \<open>config\<close> are the two fields of class \<open>Reacord\<close>; \<open>robjs\<close> and
  \<open>next_rid\<close> are the heap of renderer objects; \<open>sessions\<close> and \<open>next_cid\<close> the
  reconciler's containers; \<open>calls\<close> the calls made to renderers, oldest first.
\<close>

record ('c, 'i, 'd) world =
  renderers :: "rid list"
  config :: reacord_config
  robjs :: "rid \<rightharpoonup> 'd renderer_obj"
  next_rid :: nat
  sessions :: "cid \<rightharpoonup> 'c session"
  next_cid :: nat
  calls :: "('c, 'i) call list"

type_synonym ('a, 'c, 'i, 'd) act = "(('c, 'i) error, 'a, ('c, 'i, 'd) world) exn"

definition init_world :: "reacord_config \<Rightarrow> ('c, 'i, 'd) world" where
  "init_world cfg = \<lparr>renderers = [], config = cfg, robjs = Map.empty, next_rid = 0,
     sessions = Map.empty, next_cid = 0, calls = []\<rparr>"

section \<open>Example environments\<close>

text \<open>
  Three environments used to run the model on concrete inputs: every renderer call
  succeeds and no renderer claims an interaction; every call throws; only the
  reconciler's diff application throws.
\<close>

definition quiet_env :: "('c, 'i) env" where
  "quiet_env h c = Returns False"

definition throwing_env :: "('c, 'i) env" where
  "throwing_env h c = Throws"

definition render_fails_env :: "('c, 'i) env" where
  "render_fails_env h c = (case c of ApplyDiff _ _ _ \<Rightarrow> Throws | _ \<Rightarrow> Returns False)"

text \<open>A small world used by the witnesses: a pool of renderers with bound 2.\<close>

abbreviation sample_world :: "rid list \<Rightarrow> (nat, nat, nat) world" where
  "sample_world rs \<equiv> \<lparr>renderers = rs, config = \<lparr>maxInstances = Some 2\<rparr>, robjs = Map.empty,
     next_rid = 4, sessions = [0 \<mapsto> \<lparr>sess_renderer = 0, sess_content = None\<rparr>], next_cid = 1, calls = []\<rparr>"

section \<open>Calling a renderer\<close>

text \<open>
  A call is recorded, then answered by the environment; a throw propagates as
  \<open>Raised c\<close> with the call already made.
\<close>

definition call_renderer :: "('c, 'i) env \<Rightarrow> ('c, 'i) call \<Rightarrow> (bool, 'c, 'i, 'd) act" where
  "call_renderer E c w =
     (let w' = w\<lparr>calls := calls w @ [c]\<rparr> in
      case E (calls w) c of
        Returns b \<Rightarrow> (Inr b, w')
      | Throws \<Rightarrow> (Inl (Raised c), w'))"

definition call_void :: "('c, 'i) env \<Rightarrow> ('c, 'i) call \<Rightarrow> (unit, 'c, 'i, 'd) act" where
  "call_void E c = ebind (call_renderer E c) (\<lambda>_. ereturn ())"

text \<open>A call changes nothing but the record of calls.\<close>

lemma call_renderer_state:
  "call_renderer E c w = (r, w') \<Longrightarrow> w' = w\<lparr>calls := calls w @ [c]\<rparr>"
  by (auto simp: call_renderer_def Let_def split: reply.splits)

lemma call_void_state:
  "call_void E c w = (r, w') \<Longrightarrow> w' = w\<lparr>calls := calls w @ [c]\<rparr>"
  by (auto simp: call_void_def ebind_def ereturn_def dest: call_renderer_state
      split: prod.splits sum.splits)

lemma call_void_result:
  "call_void E c w = (if E (calls w) c = Throws then Inl (Raised c) else Inr (),
                      w\<lparr>calls := calls w @ [c]\<rparr>)"
  by (auto simp: call_void_def call_renderer_def ebind_def ereturn_def Let_def
      split: reply.splits)

lemma call_renderer_result:
  "call_renderer E c w = (case E (calls w) c of Returns b \<Rightarrow> Inr b | Throws \<Rightarrow> Inl (Raised c),
                          w\<lparr>calls := calls w @ [c]\<rparr>)"
  by (simp add: call_renderer_def Let_def split: reply.splits)

end
