(* ===== verification/Reconciler.thy ===== *)
theory Reconciler
  imports Renderer
begin

text \<open>
  The tree-diffing bridge (spec section 4.2): the two operations of the React
  reconciler that the core calls.  The reconciler is \<open>internal/reconciler.js\<close>, which
  is not part of \<open>src/\<close>; it is modelled from the spec.  A container is a session bound
  to one renderer for its whole life; \<open>updateContainer\<close> forwards to that renderer the
  difference between the element applied last and the new one.  The spec leaves the
  session undefined after a failed diff; the model keeps its previous element.
\<close>

definition create_container :: "rid \<Rightarrow> (cid, 'c, 'i, 'd) act" where
  "create_container r w =
     (Inr (next_cid w),
      w\<lparr>sessions := (sessions w)(next_cid w \<mapsto> \<lparr>sess_renderer = r, sess_content = None\<rparr>),
        next_cid := Suc (next_cid w)\<rparr>)"

definition update_container ::
  "('c, 'i) env \<Rightarrow> 'c react_node \<Rightarrow> cid \<Rightarrow> (unit, 'c, 'i, 'd) act" where
  "update_container E el c w =
     (case sessions w c of
        None \<Rightarrow> (Inl TypeError, w)
      | Some s \<Rightarrow>
          ebind (call_void E (ApplyDiff (sess_renderer s) (sess_content s) el))
            (\<lambda>_. emodify (\<lambda>w'. w'\<lparr>sessions := (sessions w')(c \<mapsto> s\<lparr>sess_content := Some el\<rparr>)\<rparr>))
            w)"

section \<open>Behaviour of the bridge\<close>

lemma ebind_create_container [simp]:
  "ebind (create_container r) f w =
     f (next_cid w) (w\<lparr>sessions := (sessions w)(next_cid w \<mapsto> \<lparr>sess_renderer = r, sess_content = None\<rparr>),
                      next_cid := Suc (next_cid w)\<rparr>)"
  by (simp add: ebind_def create_container_def)

text \<open>
  An update of a live container makes exactly one call, to the container's own
  renderer, with the element applied before; on success the new element becomes the
  diff base, on failure the error propagates.
\<close>

lemma update_container_live:
  assumes "sessions w c = Some s"
  shows "update_container E el c w =
    (let call = ApplyDiff (sess_renderer s) (sess_content s) el;
         w' = w\<lparr>calls := calls w @ [call]\<rparr> in
     if E (calls w) call = Throws then (Inl (Raised call), w')
     else (Inr (), w'\<lparr>sessions := (sessions w)(c \<mapsto> s\<lparr>sess_content := Some el\<rparr>)\<rparr>))"
  using assms by (simp add: update_container_def ebind_def call_void_result Let_def emodify_def)

lemma update_container_dead:
  "sessions w c = None \<Longrightarrow> update_container E el c w = (Inl TypeError, w)"
  by (simp add: update_container_def)

text \<open>Frame facts: what the two operations leave alone.\<close>

lemma create_container_frame [simp]:
  "create_container r w = (res, w') \<Longrightarrow>
     renderers w' = renderers w \<and> config w' = config w \<and> calls w' = calls w \<and>
     robjs w' = robjs w \<and> next_rid w' = next_rid w"
  by (auto simp: create_container_def)

lemma update_container_frame:
  "update_container E el c w = (res, w') \<Longrightarrow>
     renderers w' = renderers w \<and> config w' = config w \<and> robjs w' = robjs w \<and>
     next_rid w' = next_rid w \<and> next_cid w' = next_cid w \<and> dom (sessions w') = dom (sessions w)"
  by (cases "sessions w c") (auto simp: update_container_dead update_container_live Let_def split: if_splits)

lemma update_container_owner:
  "update_container E el c w = (res, w') \<Longrightarrow>
     map_option sess_renderer \<circ> sessions w' = map_option sess_renderer \<circ> sessions w"
  by (cases "sessions w c")
    (auto simp: update_container_dead update_container_live Let_def fun_eq_iff split: if_splits)

end
