(* ===== verification/Pool.thy ===== *)
theory Pool
  imports Reconciler
begin

text \<open>
  The session pool and the instance handle: the private members of class \<open>Reacord\<close>
  in \<open>src/library/core/reacord.ts\<close> (\<open>maxInstances\<close>, \<open>createInstance\<close>,
  \<open>deactivate\<close>) and the three closures of the returned \<open>ReacordInstance\<close>.  Each
  statement of the source is one step of an exception-state computation, in the
  source's order.  The lemmas give the behaviour of every branch, the abstract pool
  operation (\<open>pool_register\<close>) each one implements, and the error paths.
\<close>

section \<open>Operations\<close>

text \<open>\<open>get maxInstances() { return this.config.maxInstances ?? 50 }\<close>\<close>

definition max_instances :: "reacord_config \<Rightarrow> int" where
  "max_instances cfg = (case maxInstances cfg of None \<Rightarrow> 50 | Some n \<Rightarrow> n)"

text \<open>
  \<open>private deactivate(renderer)\<close>: drop every occurrence from the pool, then call the
  renderer's \<open>deactivate()\<close>.
\<close>

definition deactivate :: "('c, 'i) env \<Rightarrow> rid \<Rightarrow> (unit, 'c, 'i, 'd) act" where
  "deactivate E renderer =
     ebind (emodify (\<lambda>w. w\<lparr>renderers := filter (\<lambda>it. it \<noteq> renderer) (renderers w)\<rparr>))
       (\<lambda>_. call_void E (Deactivate renderer))"

text \<open>
  The capacity check of \<open>createInstance\<close>:
  \<open>if (this.renderers.length > this.maxInstances) this.deactivate(this.renderers[0]!)\<close>.
  On an empty pool \<open>this.renderers[0]\<close> is \<open>undefined\<close>: the filter changes
  nothing and \<open>undefined.deactivate()\<close> throws a \<open>TypeError\<close>.
\<close>

definition evict_if_full :: "('c, 'i) env \<Rightarrow> (unit, 'c, 'i, 'd) act" where
  "evict_if_full E w =
     (if int (length (renderers w)) > max_instances (config w) then
        (case renderers w of [] \<Rightarrow> (Inl TypeError, w) | oldest # _ \<Rightarrow> deactivate E oldest w)
      else (Inr (), w))"

text \<open>\<open>private createInstance(renderer, initialContent?)\<close> (library variant).\<close>

definition create_instance ::
  "('c, 'i) env \<Rightarrow> rid \<Rightarrow> 'c option \<Rightarrow> (reacord_instance, 'c, 'i, 'd) act" where
  "create_instance E renderer initialContent =
     ebind (evict_if_full E) (\<lambda>_.
     ebind (emodify (\<lambda>w. w\<lparr>renderers := renderers w @ [renderer]\<rparr>)) (\<lambda>_.
     ebind (create_container renderer) (\<lambda>container.
     ebind (case initialContent of
              None \<Rightarrow> ereturn ()
            | Some c \<Rightarrow> update_container E (Content c) container) (\<lambda>_.
     ereturn \<lparr>inst_renderer = renderer, inst_container = container\<rparr>))))"

text \<open>The closures of the returned instance.\<close>

definition render :: "('c, 'i) env \<Rightarrow> reacord_instance \<Rightarrow> 'c \<Rightarrow> (unit, 'c, 'i, 'd) act" where
  "render E inst content = update_container E (Content content) (inst_container inst)"

definition instance_deactivate :: "('c, 'i) env \<Rightarrow> reacord_instance \<Rightarrow> (unit, 'c, 'i, 'd) act" where
  "instance_deactivate E inst = deactivate E (inst_renderer inst)"

definition instance_destroy :: "('c, 'i) env \<Rightarrow> reacord_instance \<Rightarrow> (unit, 'c, 'i, 'd) act" where
  "instance_destroy E inst =
     ebind (emodify (\<lambda>w. w\<lparr>renderers := filter (\<lambda>it. it \<noteq> inst_renderer inst) (renderers w)\<rparr>))
       (\<lambda>_. call_void E (Destroy (inst_renderer inst)))"

section \<open>The abstract pool\<close>

text \<open>
  What the pool promises (spec 4.4): registration appends the new renderer after
  dropping the oldest one if the pool held more than the bound before; removal takes one
  renderer out and keeps the order of the others.
\<close>

definition pool_register :: "int \<Rightarrow> rid list \<Rightarrow> rid \<Rightarrow> rid list" where
  "pool_register m rs r = (if int (length rs) > m then tl rs else rs) @ [r]"

section \<open>Behaviour of each operation\<close>

lemma deactivate_eq:
  "deactivate E r w =
     (if E (calls w) (Deactivate r) = Throws then Inl (Raised (Deactivate r)) else Inr (),
      w\<lparr>renderers := filter (\<lambda>it. it \<noteq> r) (renderers w), calls := calls w @ [Deactivate r]\<rparr>)"
  by (simp add: deactivate_def call_void_result)

lemma instance_destroy_eq:
  "instance_destroy E inst w =
     (if E (calls w) (Destroy (inst_renderer inst)) = Throws
      then Inl (Raised (Destroy (inst_renderer inst))) else Inr (),
      w\<lparr>renderers := filter (\<lambda>it. it \<noteq> inst_renderer inst) (renderers w),
        calls := calls w @ [Destroy (inst_renderer inst)]\<rparr>)"
  by (simp add: instance_destroy_def call_void_result)

lemma evict_if_full_not_full:
  "\<not> int (length (renderers w)) > max_instances (config w) \<Longrightarrow> evict_if_full E w = (Inr (), w)"
  by (simp add: evict_if_full_def)

lemma evict_if_full_full:
  "int (length (renderers w)) > max_instances (config w) \<Longrightarrow> renderers w = oldest # rest \<Longrightarrow>
   evict_if_full E w = deactivate E oldest w"
  by (simp add: evict_if_full_def)

text \<open>Once the capacity check has passed, the rest of \<open>createInstance\<close> in one equation.\<close>

lemma create_instance_after_check:
  assumes "evict_if_full E w = (Inr (), w1)"
  shows "create_instance E r init w =
    (let c = next_cid w1;
         w2 = w1\<lparr>renderers := renderers w1 @ [r],
                 sessions := (sessions w1)(c \<mapsto> \<lparr>sess_renderer = r, sess_content = None\<rparr>),
                 next_cid := Suc c\<rparr>;
         inst = \<lparr>inst_renderer = r, inst_container = c\<rparr> in
     case init of
       None \<Rightarrow> (Inr inst, w2)
     | Some x \<Rightarrow> (case update_container E (Content x) c w2 of
                   (Inl e, w3) \<Rightarrow> (Inl e, w3)
                 | (Inr _, w3) \<Rightarrow> (Inr inst, w3)))"
proof -
  have "create_instance E r init w =
    ebind (emodify (\<lambda>w. w\<lparr>renderers := renderers w @ [r]\<rparr>)) (\<lambda>_.
     ebind (create_container r) (\<lambda>container.
     ebind (case init of None \<Rightarrow> ereturn () | Some c \<Rightarrow> update_container E (Content c) container) (\<lambda>_.
     ereturn \<lparr>inst_renderer = r, inst_container = container\<rparr>))) w1"
    unfolding create_instance_def by (rule ebind_Inr [of "evict_if_full E" w, OF assms])
  then show ?thesis
    by (cases init) (simp_all add: Let_def ebind_ereturn_right ereturn_def)
qed

lemma create_instance_check_fails:
  "evict_if_full E w = (Inl e, w1) \<Longrightarrow> create_instance E r init w = (Inl e, w1)"
  unfolding create_instance_def by (rule ebind_Inl [of "evict_if_full E" w])

lemma create_instance_after_check_frame:
  assumes "evict_if_full E w = (Inr (), w1)" and "create_instance E r init w = (res, w')"
  shows "renderers w' = renderers w1 @ [r] \<and> config w' = config w1 \<and> robjs w' = robjs w1 \<and>
         next_rid w' = next_rid w1 \<and> next_cid w' = Suc (next_cid w1) \<and>
         map_option sess_renderer \<circ> sessions w' =
           (map_option sess_renderer \<circ> sessions w1)(next_cid w1 \<mapsto> r)"
proof (cases init)
  case None
  with assms show ?thesis
    by (auto simp: create_instance_after_check Let_def fun_eq_iff)
next
  case (Some x)
  let ?w2 = "w1\<lparr>renderers := renderers w1 @ [r],
                 sessions := (sessions w1)(next_cid w1 \<mapsto> \<lparr>sess_renderer = r, sess_content = None\<rparr>),
                 next_cid := Suc (next_cid w1)\<rparr>"
  obtain res' w3 where u: "update_container E (Content x) (next_cid w1) ?w2 = (res', w3)"
    by fastforce
  with assms Some have "w' = w3"
    by (auto simp: create_instance_after_check Let_def split: sum.splits)
  with u show ?thesis
    using update_container_frame [OF u] update_container_owner [OF u]
    by (simp add: fun_eq_iff)
qed

lemma evict_if_full_frame:
  "evict_if_full E w = (res, w1) \<Longrightarrow>
     config w1 = config w \<and> robjs w1 = robjs w \<and> next_rid w1 = next_rid w \<and>
     sessions w1 = sessions w \<and> next_cid w1 = next_cid w"
  by (auto simp: evict_if_full_def deactivate_eq split: if_splits list.splits)

lemma evict_if_full_evicts:
  "renderers w = oldest # rest \<Longrightarrow> distinct (renderers w) \<Longrightarrow>
   int (length (renderers w)) > max_instances (config w) \<Longrightarrow>
   evict_if_full E w =
     (if E (calls w) (Deactivate oldest) = Throws then Inl (Raised (Deactivate oldest)) else Inr (),
      w\<lparr>renderers := rest, calls := calls w @ [Deactivate oldest]\<rparr>)"
  by (simp add: evict_if_full_full deactivate_eq filter_neq_absent)

lemma create_instance_calls_after_check:
  assumes "evict_if_full E w = (Inr (), w1)" and "create_instance E r init w = (res, w')"
  shows "calls w' = calls w1 @ (case init of None \<Rightarrow> [] | Some c \<Rightarrow> [ApplyDiff r None (Content c)])"
  using assms
  by (cases init) (auto simp: create_instance_after_check Let_def update_container_live
      split: if_splits)

lemma create_instance_renderers:
  assumes "distinct (renderers w)"
  shows "renderers (snd (create_instance E r init w)) =
    (if int (length (renderers w)) > max_instances (config w) \<and>
        (renderers w = [] \<or> E (calls w) (Deactivate (hd (renderers w))) = Throws)
     then tl (renderers w)
     else pool_register (max_instances (config w)) (renderers w) r)"
proof -
  obtain res w' where ci: "create_instance E r init w = (res, w')" by fastforce
  show ?thesis
  proof (cases "int (length (renderers w)) > max_instances (config w)")
    case False
    then have "evict_if_full E w = (Inr (), w)" by (rule evict_if_full_not_full)
    from create_instance_after_check_frame [OF this ci] False show ?thesis
      by (simp add: ci pool_register_def)
  next
    case True
    show ?thesis
    proof (cases "renderers w")
      case Nil
      with True ci show ?thesis
        by (simp add: create_instance_check_fails evict_if_full_def)
    next
      case (Cons oldest rest)
      show ?thesis
      proof (cases "E (calls w) (Deactivate oldest) = Throws")
        case thr: True
        with Cons True assms show ?thesis
          by (simp add: create_instance_check_fails evict_if_full_evicts)
      next
        case False
        with Cons True assms have "evict_if_full E w = (Inr (), w\<lparr>renderers := rest,
            calls := calls w @ [Deactivate oldest]\<rparr>)"
          by (simp add: evict_if_full_evicts)
        from create_instance_after_check_frame [OF this ci] True Cons False show ?thesis
          by (simp add: ci pool_register_def)
      qed
    qed
  qed
qed

lemma create_instance_config:
  "create_instance E r init w = (res, w') \<Longrightarrow> config w' = config w \<and> next_rid w' = next_rid w"
proof -
  assume ci: "create_instance E r init w = (res, w')"
  obtain res1 w1 where ev: "evict_if_full E w = (res1, w1)" by fastforce
  have fr: "config w1 = config w \<and> next_rid w1 = next_rid w"
    using evict_if_full_frame [OF ev] by simp
  show ?thesis
  proof (cases res1)
    case (Inl e)
    with ev ci fr show ?thesis by (simp add: create_instance_check_fails)
  next
    case (Inr u)
    with ev have "evict_if_full E w = (Inr (), w1)" by simp
    from create_instance_after_check_frame [OF this ci] fr show ?thesis by simp
  qed
qed
section \<open>Properties of the pool\<close>

text \<open>C2: When the pool holds more renderers than the bound, createInstance deactivates exactly the oldest one (FIFO), appends the new renderer, and makes no other call than the initial render.\<close>

theorem create_instance_evicts_oldest:
  assumes "renderers w = oldest # rest" and "distinct (renderers w)"
    and "int (length (renderers w)) > max_instances (config w)"
    and "E (calls w) (Deactivate oldest) \<noteq> Throws"
    and "create_instance E r init w = (res, w')"
  shows "renderers w' = rest @ [r] \<and>
         calls w' = calls w @ Deactivate oldest #
           (case init of None \<Rightarrow> [] | Some c \<Rightarrow> [ApplyDiff r None (Content c)])"
proof -
  from assms(1-4) have ev: "evict_if_full E w =
      (Inr (), w\<lparr>renderers := rest, calls := calls w @ [Deactivate oldest]\<rparr>)"
    by (simp add: evict_if_full_evicts)
  show ?thesis
    using create_instance_after_check_frame [OF ev assms(5)]
      create_instance_calls_after_check [OF ev assms(5)]
    by simp
qed

theorem create_instance_evicts_oldest_witness:
  "renderers (sample_world [0, 1, 2]) = 0 # [1, 2] \<and> distinct (renderers (sample_world [0, 1, 2])) \<and>
   int (length (renderers (sample_world [0, 1, 2]))) > max_instances (config (sample_world [0, 1, 2])) \<and>
   quiet_env (calls (sample_world [0, 1, 2])) (Deactivate 0) \<noteq> Throws \<and>
   renderers (snd (create_instance quiet_env 3 (Some 7) (sample_world [0, 1, 2]))) = [1, 2, 3] \<and>
   calls (snd (create_instance quiet_env 3 (Some 7) (sample_world [0, 1, 2]))) =
     [Deactivate 0, ApplyDiff 3 None (Content 7)]"
proof -
  let ?ci = "create_instance quiet_env 3 (Some 7) (sample_world [0, 1, 2])"
  have "?ci = (fst ?ci, snd ?ci)" by simp
  from create_instance_evicts_oldest [OF _ _ _ _ this]
  show ?thesis by (simp add: quiet_env_def max_instances_def)
qed

text \<open>C6: On a pool without duplicates, with a non-negative bound and an eviction that does not throw, createInstance changes the pool exactly as the abstract registration pool_register does, whatever the initial render does.\<close>

theorem create_instance_refines_pool_register:
  assumes "distinct (renderers w)" and "0 \<le> max_instances (config w)"
    and "E (calls w) (Deactivate (hd (renderers w))) \<noteq> Throws"
  shows "renderers (snd (create_instance E r init w)) =
         pool_register (max_instances (config w)) (renderers w) r"
proof -
  obtain res w' where ci: "create_instance E r init w = (res, w')" by fastforce
  show ?thesis
  proof (cases "int (length (renderers w)) > max_instances (config w)")
    case False
    then have "evict_if_full E w = (Inr (), w)" by (rule evict_if_full_not_full)
    from create_instance_after_check_frame [OF this ci] False show ?thesis
      by (simp add: ci pool_register_def)
  next
    case True
    with assms(2) obtain oldest rest where rs: "renderers w = oldest # rest"
      by (cases "renderers w") auto
    with True assms(1,3) have "evict_if_full E w = (Inr (), w\<lparr>renderers := rest,
        calls := calls w @ [Deactivate oldest]\<rparr>)"
      by (simp add: evict_if_full_full deactivate_eq filter_neq_absent)
    from create_instance_after_check_frame [OF this ci] True rs show ?thesis
      by (simp add: ci pool_register_def)
  qed
qed

theorem create_instance_refines_pool_register_witness:
  "distinct (renderers (sample_world [0, 1, 2])) \<and> 0 \<le> max_instances (config (sample_world [0, 1, 2])) \<and>
   quiet_env (calls (sample_world [0, 1, 2])) (Deactivate (hd (renderers (sample_world [0, 1, 2])))) \<noteq> Throws \<and>
   renderers (snd (create_instance quiet_env 3 None (sample_world [0, 1, 2]))) = [1, 2, 3]"
  using create_instance_refines_pool_register [of "sample_world [0, 1, 2]" quiet_env 3 None]
  by (simp add: quiet_env_def max_instances_def pool_register_def)

text \<open>C19: If the evicted renderer's deactivate() throws, createInstance throws that error with the oldest renderer already removed, and the new renderer is neither registered nor given a container.\<close>

theorem create_instance_eviction_failure:
  assumes "renderers w = oldest # rest" and "distinct (renderers w)"
    and "int (length (renderers w)) > max_instances (config w)"
    and "E (calls w) (Deactivate oldest) = Throws"
  shows "create_instance E r init w =
    (Inl (Raised (Deactivate oldest)), w\<lparr>renderers := rest, calls := calls w @ [Deactivate oldest]\<rparr>)"
  using assms by (simp add: create_instance_check_fails evict_if_full_evicts)

theorem create_instance_eviction_failure_witness:
  "renderers (sample_world [0, 1, 2]) = 0 # [1, 2] \<and> distinct (renderers (sample_world [0, 1, 2])) \<and>
   int (length (renderers (sample_world [0, 1, 2]))) > max_instances (config (sample_world [0, 1, 2])) \<and>
   throwing_env (calls (sample_world [0, 1, 2])) (Deactivate 0) = Throws \<and>
   create_instance throwing_env 3 (Some (7::nat)) (sample_world [0, 1, 2]) =
     (Inl (Raised (Deactivate 0)), (sample_world [1, 2])\<lparr>calls := [Deactivate 0]\<rparr>)"
  using create_instance_eviction_failure [of "sample_world [0, 1, 2]" 0 "[1, 2]" throwing_env 3 "Some 7"]
  by (simp add: throwing_env_def max_instances_def)

text \<open>C18: If the initial render throws, createInstance throws, but the new renderer stays registered in the pool and its container exists: the caller receives no handle to destroy it.\<close>

theorem create_instance_initial_render_failure:
  assumes "\<not> int (length (renderers w)) > max_instances (config w)"
    and "E (calls w) (ApplyDiff r None (Content c)) = Throws"
  shows "create_instance E r (Some c) w =
    (Inl (Raised (ApplyDiff r None (Content c))),
     w\<lparr>renderers := renderers w @ [r],
       sessions := (sessions w)(next_cid w \<mapsto> \<lparr>sess_renderer = r, sess_content = None\<rparr>),
       next_cid := Suc (next_cid w),
       calls := calls w @ [ApplyDiff r None (Content c)]\<rparr>)"
  using assms
  by (simp add: create_instance_after_check [OF evict_if_full_not_full [OF assms(1)]]
      update_container_live Let_def)

theorem create_instance_initial_render_failure_witness:
  "\<not> int (length (renderers (sample_world [0]))) > max_instances (config (sample_world [0])) \<and>
   render_fails_env (calls (sample_world [0])) (ApplyDiff 3 None (Content (7::nat))) = Throws \<and>
   create_instance render_fails_env 3 (Some 7) (sample_world [0]) =
    (Inl (Raised (ApplyDiff 3 None (Content 7))),
     (sample_world [0, 3])\<lparr>sessions := [0 \<mapsto> \<lparr>sess_renderer = 0, sess_content = None\<rparr>,
        1 \<mapsto> \<lparr>sess_renderer = 3, sess_content = None\<rparr>],
       next_cid := 2, calls := [ApplyDiff 3 None (Content 7)]\<rparr>)"
  using create_instance_initial_render_failure [of "sample_world [0]" render_fails_env 3 7]
  by (simp add: render_fails_env_def max_instances_def)

text \<open>C7: Without eviction, initial content is applied to the new container (one diff from nothing to the content, sent to the new renderer) before createInstance returns the instance.\<close>

theorem create_instance_initial_render:
  assumes "\<not> int (length (renderers w)) > max_instances (config w)"
    and "E (calls w) (ApplyDiff r None (Content c)) \<noteq> Throws"
  shows "create_instance E r (Some c) w =
    (Inr \<lparr>inst_renderer = r, inst_container = next_cid w\<rparr>,
     w\<lparr>renderers := renderers w @ [r],
       sessions := (sessions w)(next_cid w \<mapsto> \<lparr>sess_renderer = r, sess_content = Some (Content c)\<rparr>),
       next_cid := Suc (next_cid w),
       calls := calls w @ [ApplyDiff r None (Content c)]\<rparr>)"
  using assms
  by (simp add: create_instance_after_check [OF evict_if_full_not_full [OF assms(1)]]
      update_container_live Let_def)

theorem create_instance_initial_render_witness:
  "\<not> int (length (renderers (sample_world [0]))) > max_instances (config (sample_world [0])) \<and>
   quiet_env (calls (sample_world [0])) (ApplyDiff 3 None (Content (7::nat))) \<noteq> Throws \<and>
   create_instance quiet_env 3 (Some 7) (sample_world [0]) =
    (Inr \<lparr>inst_renderer = 3, inst_container = 1\<rparr>,
     (sample_world [0, 3])\<lparr>sessions := [0 \<mapsto> \<lparr>sess_renderer = 0, sess_content = None\<rparr>,
        1 \<mapsto> \<lparr>sess_renderer = 3, sess_content = Some (Content 7)\<rparr>],
       next_cid := 2, calls := [ApplyDiff 3 None (Content 7)]\<rparr>)"
  using create_instance_initial_render [of "sample_world [0]" quiet_env 3 7]
  by (simp add: quiet_env_def max_instances_def)

text \<open>C20: With a negative maxInstances and an empty pool, createInstance throws a TypeError (undefined.deactivate()) and changes nothing.\<close>

theorem create_instance_negative_bound:
  assumes "max_instances (config w) < 0" and "renderers w = []"
  shows "create_instance E r init w = (Inl TypeError, w)"
  using assms by (simp add: create_instance_check_fails evict_if_full_def)

theorem create_instance_negative_bound_witness:
  "max_instances (config ((sample_world [])\<lparr>config := \<lparr>maxInstances = Some (-1)\<rparr>\<rparr>)) < 0 \<and>
   renderers ((sample_world [])\<lparr>config := \<lparr>maxInstances = Some (-1)\<rparr>\<rparr>) = [] \<and>
   create_instance quiet_env 3 (Some (7::nat)) ((sample_world [])\<lparr>config := \<lparr>maxInstances = Some (-1)\<rparr>\<rparr>) =
     (Inl TypeError, (sample_world [])\<lparr>config := \<lparr>maxInstances = Some (-1)\<rparr>\<rparr>)"
  using create_instance_negative_bound [of "(sample_world [])\<lparr>config := \<lparr>maxInstances = Some (-1)\<rparr>\<rparr>" quiet_env 3 "Some 7"]
  by (simp add: max_instances_def)

text \<open>C8: On a pool without duplicates, an instance's deactivate and destroy each remove exactly its renderer and keep the order of the others (abstract removal remove1); removing an absent renderer changes nothing.\<close>

theorem instance_removal_refines_remove1:
  assumes "distinct (renderers w)"
  shows "renderers (snd (instance_deactivate E inst w)) = remove1 (inst_renderer inst) (renderers w) \<and>
         renderers (snd (instance_destroy E inst w)) = remove1 (inst_renderer inst) (renderers w)"
  using assms
  by (simp add: instance_deactivate_def deactivate_eq instance_destroy_eq filter_neq_remove1)

theorem instance_removal_refines_remove1_witness:
  "distinct (renderers (sample_world [0, 1, 2])) \<and>
   renderers (snd (instance_deactivate quiet_env \<lparr>inst_renderer = 1, inst_container = 0\<rparr> (sample_world [0, 1, 2]))) = [0, 2] \<and>
   renderers (snd (instance_destroy quiet_env \<lparr>inst_renderer = 1, inst_container = 0\<rparr> (sample_world [0, 1, 2]))) = [0, 2]"
  using instance_removal_refines_remove1 [of "sample_world [0, 1, 2]" quiet_env "\<lparr>inst_renderer = 1, inst_container = 0\<rparr>"]
  by simp

text \<open>C16: Deactivating an instance twice leaves the pool as after the first call, but calls the renderer's deactivate() twice.\<close>

theorem instance_deactivate_twice:
  assumes "instance_deactivate E inst w = (a, w1)" and "instance_deactivate E inst w1 = (b, w2)"
  shows "renderers w2 = renderers w1 \<and>
         calls w2 = calls w @ [Deactivate (inst_renderer inst), Deactivate (inst_renderer inst)]"
  using assms by (auto simp: instance_deactivate_def deactivate_eq filter_neq_idem)

theorem instance_deactivate_twice_witness:
  "calls (snd (instance_deactivate quiet_env \<lparr>inst_renderer = 1, inst_container = 0\<rparr>
      (snd (instance_deactivate quiet_env \<lparr>inst_renderer = 1, inst_container = 0\<rparr> (sample_world [0, 1]))))) =
     [Deactivate 1, Deactivate 1]"
proof -
  let ?i = "\<lparr>inst_renderer = 1, inst_container = 0\<rparr>"
  let ?d1 = "instance_deactivate quiet_env ?i (sample_world [0, 1])"
  let ?d2 = "instance_deactivate quiet_env ?i (snd ?d1)"
  have "?d1 = (fst ?d1, snd ?d1)" "?d2 = (fst ?d2, snd ?d2)" by simp_all
  from instance_deactivate_twice [OF this] show ?thesis by simp
qed

text \<open>C15: Destroying an instance twice leaves the pool as after the first call, but calls the renderer's destroy() twice, not once.\<close>

theorem instance_destroy_twice:
  assumes "instance_destroy E inst w = (a, w1)" and "instance_destroy E inst w1 = (b, w2)"
  shows "renderers w2 = renderers w1 \<and>
         calls w2 = calls w @ [Destroy (inst_renderer inst), Destroy (inst_renderer inst)]"
  using assms by (auto simp: instance_destroy_eq filter_neq_idem)

theorem instance_destroy_twice_witness:
  "calls (snd (instance_destroy quiet_env \<lparr>inst_renderer = 1, inst_container = 0\<rparr>
      (snd (instance_destroy quiet_env \<lparr>inst_renderer = 1, inst_container = 0\<rparr> (sample_world [0, 1]))))) =
     [Destroy 1, Destroy 1]"
proof -
  let ?i = "\<lparr>inst_renderer = 1, inst_container = 0\<rparr>"
  let ?d1 = "instance_destroy quiet_env ?i (sample_world [0, 1])"
  let ?d2 = "instance_destroy quiet_env ?i (snd ?d1)"
  have "?d1 = (fst ?d1, snd ?d1)" "?d2 = (fst ?d2, snd ?d2)" by simp_all
  from instance_destroy_twice [OF this] show ?thesis by simp
qed

text \<open>C9: An instance's deactivate removes its renderer from the pool, calls the renderer's deactivate() and nothing else (in particular not destroy()), and leaves the containers alone.\<close>

theorem instance_deactivate_effect:
  "instance_deactivate E inst w = (res, w') \<Longrightarrow>
     inst_renderer inst \<notin> set (renderers w') \<and> calls w' = calls w @ [Deactivate (inst_renderer inst)] \<and>
     sessions w' = sessions w"
  by (auto simp: instance_deactivate_def deactivate_eq)

theorem instance_deactivate_effect_witness:
  "1 \<notin> set (renderers (snd (instance_deactivate quiet_env \<lparr>inst_renderer = 1, inst_container = 0\<rparr> (sample_world [0, 1])))) \<and>
   calls (snd (instance_deactivate quiet_env \<lparr>inst_renderer = 1, inst_container = 0\<rparr> (sample_world [0, 1]))) = [Deactivate 1] \<and>
   sessions (snd (instance_deactivate quiet_env \<lparr>inst_renderer = 1, inst_container = 0\<rparr> (sample_world [0, 1]))) =
     [0 \<mapsto> \<lparr>sess_renderer = 0, sess_content = None\<rparr>]"
proof -
  let ?d = "instance_deactivate quiet_env \<lparr>inst_renderer = 1, inst_container = 0\<rparr> (sample_world [0, 1])"
  have "?d = (fst ?d, snd ?d)" by simp
  from instance_deactivate_effect [OF this] show ?thesis by simp
qed

text \<open>C17: After destroy, render still forwards a diff to the destroyed renderer through its container: the instance does not refuse content after destroy.\<close>

theorem render_after_destroy:
  assumes "sessions w (inst_container inst) = Some s"
    and "instance_destroy E inst w = (a, w1)" and "render E inst c w1 = (b, w2)"
  shows "calls w2 = calls w @ [Destroy (inst_renderer inst),
                               ApplyDiff (sess_renderer s) (sess_content s) (Content c)]"
  using assms
  by (auto simp: instance_destroy_eq render_def update_container_live Let_def split: if_splits)

theorem render_after_destroy_witness:
  "sessions (sample_world [0]) 0 = Some \<lparr>sess_renderer = 0, sess_content = None\<rparr> \<and>
   calls (snd (render quiet_env \<lparr>inst_renderer = 0, inst_container = 0\<rparr> (5::nat)
     (snd (instance_destroy quiet_env \<lparr>inst_renderer = 0, inst_container = 0\<rparr> (sample_world [0]))))) =
     [Destroy 0, ApplyDiff 0 None (Content 5)]"
proof -
  let ?i = "\<lparr>inst_renderer = 0, inst_container = 0\<rparr>"
  let ?d = "instance_destroy quiet_env ?i (sample_world [0])"
  let ?r = "render quiet_env ?i (5::nat) (snd ?d)"
  have "?d = (fst ?d, snd ?d)" "?r = (fst ?r, snd ?r)" by simp_all
  from render_after_destroy [OF _ this] show ?thesis by simp
qed

end
