(* ===== verification/Dispatch.thy ===== *)
theory Dispatch
  imports Pool
begin

text \<open>
  The interaction dispatcher: \<open>handleComponentInteraction\<close> of class \<open>Reacord\<close>
  (src/library/core/reacord.ts lines 42-46; the same code in the packages variant).
  The \<open>for ... of\<close> loop walks the array the pool held when the loop started and stops
  at the first renderer whose \<open>handleComponentInteraction\<close> returns true; an exception
  of a renderer leaves the loop too.  \<open>take_through\<close> is the reference: the renderers
  up to and including the first one that claims the interaction.
\<close>

fun offer_interaction :: "('c, 'i) env \<Rightarrow> 'i \<Rightarrow> rid list \<Rightarrow> (unit, 'c, 'i, 'd) act" where
  "offer_interaction E interaction [] = ereturn ()"
| "offer_interaction E interaction (renderer # rest) =
     ebind (call_renderer E (HandleComponentInteraction renderer interaction))
       (\<lambda>handled. if handled then ereturn () else offer_interaction E interaction rest)"

definition handle_component_interaction :: "('c, 'i) env \<Rightarrow> 'i \<Rightarrow> (unit, 'c, 'i, 'd) act" where
  "handle_component_interaction E interaction w = offer_interaction E interaction (renderers w) w"

definition take_through :: "('a \<Rightarrow> bool) \<Rightarrow> 'a list \<Rightarrow> 'a list" where
  "take_through p xs = takeWhile (\<lambda>x. \<not> p x) xs @ take 1 (dropWhile (\<lambda>x. \<not> p x) xs)"

abbreviation offers :: "'i \<Rightarrow> rid list \<Rightarrow> ('c, 'i) call list" where
  "offers i rs \<equiv> map (\<lambda>r. HandleComponentInteraction r i) rs"

lemma ebind_call_renderer:
  "ebind (call_renderer E c) f w =
     (case E (calls w) c of
        Returns b \<Rightarrow> f b (w\<lparr>calls := calls w @ [c]\<rparr>)
      | Throws \<Rightarrow> (Inl (Raised c), w\<lparr>calls := calls w @ [c]\<rparr>))"
  by (simp add: ebind_def call_renderer_result split: reply.splits)

lemma offer_interaction_frame:
  "offer_interaction E i rs w = (res, w') \<Longrightarrow> w' = w\<lparr>calls := calls w'\<rparr>"
proof (induction rs arbitrary: w)
  case Nil
  then show ?case by (simp add: ereturn_def)
next
  case (Cons r rs)
  then show ?case
    by (fastforce simp: ebind_call_renderer ereturn_def split: reply.splits if_splits)
qed

lemma take_through_Cons:
  "take_through p (x # xs) = (if p x then [x] else x # take_through p xs)"
  by (simp add: take_through_def)

lemma offer_interaction_pure:
  assumes "\<forall>h r. E h (HandleComponentInteraction r i) = Returns (claims r)"
  shows "offer_interaction E i rs w = (Inr (), w\<lparr>calls := calls w @ offers i (take_through claims rs)\<rparr>)"
proof (induction rs arbitrary: w)
  case Nil
  then show ?case by (simp add: take_through_def ereturn_def)
next
  case (Cons r rs)
  then show ?case
    by (simp add: ebind_call_renderer assms take_through_Cons ereturn_def)
qed

lemma offer_interaction_prefix:
  "offer_interaction E i rs w = (res, w') \<Longrightarrow>
   \<exists>ks. prefix ks rs \<and> calls w' = calls w @ offers i ks \<and>
     (\<forall>j. Suc j < length ks \<longrightarrow>
        E (calls w @ offers i (take j ks)) (HandleComponentInteraction (ks ! j) i) = Returns False)"
proof (induction rs arbitrary: w)
  case Nil
  then show ?case by (auto simp: ereturn_def)
next
  case (Cons r rs)
  let ?c = "HandleComponentInteraction r i"
  let ?w1 = "w\<lparr>calls := calls w @ [?c]\<rparr>"
  show ?case
  proof (cases "E (calls w) ?c = Returns False")
    case True
    with Cons.prems have "offer_interaction E i rs ?w1 = (res, w')"
      by (simp add: ebind_call_renderer)
    then obtain ks where ks: "prefix ks rs" "calls w' = calls ?w1 @ offers i ks"
      "\<forall>j. Suc j < length ks \<longrightarrow>
        E (calls ?w1 @ offers i (take j ks)) (HandleComponentInteraction (ks ! j) i) = Returns False"
      using Cons.IH by blast
    have "\<forall>j. Suc j < length (r # ks) \<longrightarrow>
        E (calls w @ offers i (take j (r # ks))) (HandleComponentInteraction ((r # ks) ! j) i) = Returns False"
    proof (intro allI impI)
      fix j assume "Suc j < length (r # ks)"
      with ks(3) True show "E (calls w @ offers i (take j (r # ks))) (HandleComponentInteraction ((r # ks) ! j) i) = Returns False"
        by (cases j) auto
    qed
    with ks(1,2) show ?thesis
      by (intro exI [of _ "r # ks"]) simp
  next
    case False
    with Cons.prems have "calls w' = calls w @ [?c]"
      by (auto simp: ebind_call_renderer ereturn_def split: reply.splits if_splits)
    then show ?thesis
      by (intro exI [of _ "[r]"]) simp
  qed
qed

lemma offer_interaction_declined:
  assumes "\<forall>j < length xs. E (calls w @ offers i (take j xs)) (HandleComponentInteraction (xs ! j) i) = Returns False"
  shows "offer_interaction E i (xs @ rest) w = offer_interaction E i rest (w\<lparr>calls := calls w @ offers i xs\<rparr>)"
  using assms
proof (induction xs arbitrary: w)
  case Nil
  then show ?case by simp
next
  case (Cons x xs)
  let ?w1 = "w\<lparr>calls := calls w @ [HandleComponentInteraction x i]\<rparr>"
  from Cons.prems have x: "E (calls w) (HandleComponentInteraction x i) = Returns False"
    by (metis length_Cons nth_Cons_0 take0 append_Nil2 list.simps(8) zero_less_Suc)
  from Cons.prems have "\<forall>j < length xs. E (calls ?w1 @ offers i (take j xs))
      (HandleComponentInteraction (xs ! j) i) = Returns False"
    by (auto dest: spec [of _ "Suc _"])
  then have "offer_interaction E i (xs @ rest) ?w1 =
      offer_interaction E i rest (?w1\<lparr>calls := calls ?w1 @ offers i xs\<rparr>)"
    by (rule Cons.IH)
  with x show ?case by (simp add: ebind_call_renderer)
qed

section \<open>Properties of the dispatcher\<close>

text \<open>C3: For any renderer behaviour: if every renderer before r in the pool declines the interaction and r claims it (or throws), dispatch offers it to exactly the renderers up to r, in pool order, and never to a renderer after r; a throw propagates.\<close>

theorem handle_component_interaction_first_claim:
  assumes "renderers w = xs @ r # ys"
    and "\<forall>j < length xs. E (calls w @ offers i (take j xs)) (HandleComponentInteraction (xs ! j) i) = Returns False"
    and "E (calls w @ offers i xs) (HandleComponentInteraction r i) \<noteq> Returns False"
  shows "handle_component_interaction E i w =
    (if E (calls w @ offers i xs) (HandleComponentInteraction r i) = Throws
     then Inl (Raised (HandleComponentInteraction r i)) else Inr (),
     w\<lparr>calls := calls w @ offers i (xs @ [r])\<rparr>)"
  using assms(3)
  by (cases "E (calls w @ offers i xs) (HandleComponentInteraction r i)")
    (simp_all add: handle_component_interaction_def assms(1) offer_interaction_declined [OF assms(2)]
       ebind_call_renderer ereturn_def)

theorem handle_component_interaction_first_claim_witness:
  "renderers (sample_world [0, 1, 2]) = [0, 1] @ 2 # [] \<and>
   handle_component_interaction (\<lambda>h c. case c of HandleComponentInteraction r _ \<Rightarrow> Returns (r = 2) | _ \<Rightarrow> Returns False)
     (9::nat) (sample_world [0, 1, 2]) =
     (Inr (), (sample_world [0, 1, 2])\<lparr>calls := [HandleComponentInteraction 0 9, HandleComponentInteraction 1 9, HandleComponentInteraction 2 9]\<rparr>)"
proof -
  let ?E = "\<lambda>h c. case c of HandleComponentInteraction r _ \<Rightarrow> Returns (r = 2) | _ \<Rightarrow> Returns False"
  have "\<forall>j < length [0::nat, 1]. ?E (calls (sample_world [0, 1, 2]) @ offers (9::nat) (take j [0, 1]))
      (HandleComponentInteraction ([0, 1] ! j) 9) = Returns False"
    by (simp add: All_less_Suc)
  from handle_component_interaction_first_claim [of "sample_world [0, 1, 2]" "[0, 1]" 2 "[]" ?E 9, OF _ this]
  show ?thesis by simp
qed

text \<open>C5: When each renderer's answer to an interaction is fixed, dispatch equals the reference: it offers the interaction to takeWhile-not-claimed followed by the first claimer, in pool order, and returns normally.\<close>

theorem handle_component_interaction_reference:
  assumes "\<forall>h r. E h (HandleComponentInteraction r i) = Returns (claims r)"
  shows "handle_component_interaction E i w =
    (Inr (), w\<lparr>calls := calls w @ offers i (take_through claims (renderers w))\<rparr>)"
  by (simp add: handle_component_interaction_def offer_interaction_pure [OF assms])

theorem handle_component_interaction_reference_witness:
  "(\<forall>h r. (\<lambda>h c. case c of HandleComponentInteraction r _ \<Rightarrow> Returns (r = 2) | _ \<Rightarrow> Returns False) h
       (HandleComponentInteraction r (9::nat)) = Returns (r = 2)) \<and>
   handle_component_interaction (\<lambda>h c. case c of HandleComponentInteraction r _ \<Rightarrow> Returns (r = 2) | _ \<Rightarrow> Returns False)
     (9::nat) (sample_world [0, 1, 2]) =
     (Inr (), (sample_world [0, 1, 2])\<lparr>calls := [HandleComponentInteraction 0 9, HandleComponentInteraction 1 9, HandleComponentInteraction 2 9]\<rparr>)"
  using handle_component_interaction_reference [of
      "\<lambda>h c. case c of HandleComponentInteraction r _ \<Rightarrow> Returns (r = 2) | _ \<Rightarrow> Returns False" 9
      "\<lambda>r. r = 2" "sample_world [0, 1, 2]"]
  by (simp add: take_through_def)

text \<open>C11: Dispatch only ever offers the interaction to a prefix of the pool, in pool order, each renderer once; every renderer offered before the last one declined; nothing but the record of calls changes.\<close>

theorem handle_component_interaction_offers_pool:
  "handle_component_interaction E i w = (res, w') \<Longrightarrow>
   \<exists>ks. prefix ks (renderers w) \<and> calls w' = calls w @ offers i ks \<and>
     (\<forall>j. Suc j < length ks \<longrightarrow>
        E (calls w @ offers i (take j ks)) (HandleComponentInteraction (ks ! j) i) = Returns False) \<and>
     w' = w\<lparr>calls := calls w'\<rparr>"
  unfolding handle_component_interaction_def
  by (metis offer_interaction_prefix offer_interaction_frame)

theorem handle_component_interaction_offers_pool_witness:
  "\<exists>ks. prefix ks [0, 1, 2] \<and>
     calls (snd (handle_component_interaction quiet_env (9::nat) (sample_world [0, 1, 2]))) = offers 9 ks"
proof -
  let ?h = "handle_component_interaction quiet_env (9::nat) (sample_world [0, 1, 2])"
  have "?h = (fst ?h, snd ?h)" by simp
  from handle_component_interaction_offers_pool [OF this] show ?thesis by auto
qed

text \<open>C10: After an instance is deactivated, a following interaction is never offered to its renderer.\<close>

theorem deactivated_renderer_not_offered:
  assumes "instance_deactivate E inst w = (res, w1)"
    and "handle_component_interaction E i w1 = (res', w2)"
  shows "\<exists>ks. calls w2 = calls w @ Deactivate (inst_renderer inst) # offers i ks \<and>
              inst_renderer inst \<notin> set ks"
proof -
  obtain ks where ks: "prefix ks (renderers w1)" "calls w2 = calls w1 @ offers i ks"
    using offer_interaction_prefix [OF assms(2) [unfolded handle_component_interaction_def]] by blast
  from assms(1) have "inst_renderer inst \<notin> set (renderers w1)"
    and "calls w1 = calls w @ [Deactivate (inst_renderer inst)]"
    by (auto simp: instance_deactivate_def deactivate_eq)
  with ks show ?thesis
    by (auto dest: set_mono_prefix)
qed

theorem deactivated_renderer_not_offered_witness:
  "\<exists>ks. calls (snd (handle_component_interaction quiet_env (9::nat)
           (snd (instance_deactivate quiet_env \<lparr>inst_renderer = 1, inst_container = 0\<rparr> (sample_world [0, 1, 2]))))) =
        Deactivate 1 # offers 9 ks \<and> 1 \<notin> set ks"
proof -
  let ?d = "instance_deactivate quiet_env \<lparr>inst_renderer = 1, inst_container = 0\<rparr> (sample_world [0, 1, 2])"
  let ?h = "handle_component_interaction quiet_env (9::nat) (snd ?d)"
  have "?d = (fst ?d, snd ?d)" "?h = (fst ?h, snd ?h)" by simp_all
  from deactivated_renderer_not_offered [OF this] show ?thesis by simp
qed

end
