(* ===== verification/Facade.thy ===== *)
theory Facade
  imports Dispatch
begin

text \<open>
  The facade of the library variant (src/library/core/reacord.ts): the two protected
  constructors that concrete adapters call from \<open>send\<close> and \<open>reply\<close>.  Each allocates
  a fresh renderer object (\<open>new ChannelMessageRenderer(channel)\<close>,
  \<open>new CommandReplyRenderer(commandInteraction)\<close>) and hands it to \<open>createInstance\<close>.
  The abstract \<open>send\<close>/\<open>reply\<close> themselves are implemented by adapters outside
  \<open>src/\<close>.  Allocation is the JavaScript heap's: the object gets an identity no other
  object has.  The one property is the effect of each constructor when the pool is
  below its bound: a fresh object of the constructor's kind, registered with a new
  container, and no renderer call.
\<close>

definition new_renderer :: "'d renderer_obj \<Rightarrow> (rid, 'c, 'i, 'd) act" where
  "new_renderer obj w =
     (Inr (next_rid w), w\<lparr>robjs := (robjs w)(next_rid w \<mapsto> obj), next_rid := Suc (next_rid w)\<rparr>)"

definition create_channel_renderer_instance ::
  "('c, 'i) env \<Rightarrow> 'd \<Rightarrow> 'c option \<Rightarrow> (reacord_instance, 'c, 'i, 'd) act" where
  "create_channel_renderer_instance E channel initialContent =
     ebind (new_renderer (ChannelMessageRenderer channel))
       (\<lambda>renderer. create_instance E renderer initialContent)"

definition create_command_reply_renderer_instance ::
  "('c, 'i) env \<Rightarrow> 'd \<Rightarrow> 'c option \<Rightarrow> (reacord_instance, 'c, 'i, 'd) act" where
  "create_command_reply_renderer_instance E commandInteraction initialContent =
     ebind (new_renderer (CommandReplyRenderer commandInteraction))
       (\<lambda>renderer. create_instance E renderer initialContent)"

lemma ebind_new_renderer [simp]:
  "ebind (new_renderer obj) f w =
     f (next_rid w) (w\<lparr>robjs := (robjs w)(next_rid w \<mapsto> obj), next_rid := Suc (next_rid w)\<rparr>)"
  by (simp add: ebind_def new_renderer_def)

text \<open>Both constructors are one allocation followed by \<open>createInstance\<close>.\<close>

lemma create_renderer_instance_eq:
  "create_channel_renderer_instance E ch init w =
     create_instance E (next_rid w) init
       (w\<lparr>robjs := (robjs w)(next_rid w \<mapsto> ChannelMessageRenderer ch), next_rid := Suc (next_rid w)\<rparr>)"
  "create_command_reply_renderer_instance E ci init w =
     create_instance E (next_rid w) init
       (w\<lparr>robjs := (robjs w)(next_rid w \<mapsto> CommandReplyRenderer ci), next_rid := Suc (next_rid w)\<rparr>)"
  by (simp_all add: create_channel_renderer_instance_def create_command_reply_renderer_instance_def)

section \<open>Properties of the facade\<close>

text \<open>The world after a registration without eviction and without initial content.\<close>

abbreviation registered :: "('c, 'i, 'd) world \<Rightarrow> 'd renderer_obj \<Rightarrow> ('c, 'i, 'd) world" where
  "registered w obj \<equiv>
     w\<lparr>renderers := renderers w @ [next_rid w], robjs := (robjs w)(next_rid w \<mapsto> obj),
       next_rid := Suc (next_rid w),
       sessions := (sessions w)(next_cid w \<mapsto> \<lparr>sess_renderer = next_rid w, sess_content = None\<rparr>),
       next_cid := Suc (next_cid w)\<rparr>"

text \<open>C30: Without eviction and without initial content, the facade's createChannelRendererInstance allocates a fresh ChannelMessageRenderer for the channel and createCommandReplyRendererInstance a fresh CommandReplyRenderer for the command interaction; each registers that renderer at the end of the pool, binds a new empty container to it, calls no renderer, and returns the handle of that renderer and container.\<close>

theorem facade_registers_fresh_renderer:
  assumes "\<not> int (length (renderers w)) > max_instances (config w)"
  shows "create_channel_renderer_instance E ch None w =
           (Inr \<lparr>inst_renderer = next_rid w, inst_container = next_cid w\<rparr>,
            registered w (ChannelMessageRenderer ch)) \<and>
         create_command_reply_renderer_instance E ci None w =
           (Inr \<lparr>inst_renderer = next_rid w, inst_container = next_cid w\<rparr>,
            registered w (CommandReplyRenderer ci))"
proof -
  have ev: "evict_if_full E (w\<lparr>robjs := (robjs w)(next_rid w \<mapsto> obj), next_rid := Suc (next_rid w)\<rparr>) =
      (Inr (), w\<lparr>robjs := (robjs w)(next_rid w \<mapsto> obj), next_rid := Suc (next_rid w)\<rparr>)" for obj
    using assms by (intro evict_if_full_not_full) simp
  show ?thesis
    by (simp add: create_renderer_instance_eq create_instance_after_check [OF ev] Let_def)
qed

theorem facade_registers_fresh_renderer_witness:
  "\<not> int (length (renderers (sample_world [0]))) > max_instances (config (sample_world [0])) \<and>
   create_channel_renderer_instance (quiet_env :: (nat, nat) env) 5 None (sample_world [0]) =
     (Inr \<lparr>inst_renderer = 4, inst_container = 1\<rparr>,
      (sample_world [0, 4])\<lparr>robjs := [4 \<mapsto> ChannelMessageRenderer 5], next_rid := 5,
         sessions := [0 \<mapsto> \<lparr>sess_renderer = 0, sess_content = None\<rparr>, 1 \<mapsto> \<lparr>sess_renderer = 4, sess_content = None\<rparr>],
         next_cid := 2\<rparr>) \<and>
   create_command_reply_renderer_instance (quiet_env :: (nat, nat) env) 6 None (sample_world [0]) =
     (Inr \<lparr>inst_renderer = 4, inst_container = 1\<rparr>,
      (sample_world [0, 4])\<lparr>robjs := [4 \<mapsto> CommandReplyRenderer 6], next_rid := 5,
         sessions := [0 \<mapsto> \<lparr>sess_renderer = 0, sess_content = None\<rparr>, 1 \<mapsto> \<lparr>sess_renderer = 4, sess_content = None\<rparr>],
         next_cid := 2\<rparr>)"
  using facade_registers_fresh_renderer [of "sample_world [0]" "quiet_env :: (nat, nat) env" 5 6]
  by (simp add: max_instances_def)

end
