(* ===== verification/System.thy ===== *)
theory System
  imports Facade
begin

text \<open>
  The running program as a state machine.  A state is the world together with the
  instance handles the program has returned to its caller so far.  One step is one call
  of application code or of the transport into the core: \<open>send\<close>/\<open>reply\<close> through the
  facade, \<open>render\<close>/\<open>deactivate\<close>/\<open>destroy\<close> on a handle the program returned, or
  an inbound interaction.  A step that throws still changes the world (JavaScript keeps
  the mutations made before the throw) and returns no handle.
\<close>

type_synonym ('c, 'i, 'd) sys = "('c, 'i, 'd) world \<times> reacord_instance list"

inductive reacord_step :: "('c, 'i) env \<Rightarrow> ('c, 'i, 'd) sys \<Rightarrow> ('c, 'i, 'd) sys \<Rightarrow> bool"
  for E :: "('c, 'i) env" where
  send: "create_channel_renderer_instance E ch init w = (res, w') \<Longrightarrow>
         reacord_step E (w, hs) (w', hs @ issued res)"
| reply: "create_command_reply_renderer_instance E ci init w = (res, w') \<Longrightarrow>
         reacord_step E (w, hs) (w', hs @ issued res)"
| render: "inst \<in> set hs \<Longrightarrow> render E inst c w = (res, w') \<Longrightarrow> reacord_step E (w, hs) (w', hs)"
| deactivate: "inst \<in> set hs \<Longrightarrow> instance_deactivate E inst w = (res, w') \<Longrightarrow>
         reacord_step E (w, hs) (w', hs)"
| destroy: "inst \<in> set hs \<Longrightarrow> instance_destroy E inst w = (res, w') \<Longrightarrow>
         reacord_step E (w, hs) (w', hs)"
| interaction: "handle_component_interaction E i w = (res, w') \<Longrightarrow> reacord_step E (w, hs) (w', hs)"

inductive reachable :: "('c, 'i) env \<Rightarrow> reacord_config \<Rightarrow> ('c, 'i, 'd) sys \<Rightarrow> bool"
  for E :: "('c, 'i) env" and cfg :: reacord_config where
  init: "reachable E cfg (init_world cfg, [])"
| step: "reachable E cfg s \<Longrightarrow> reacord_step E s s' \<Longrightarrow> reachable E cfg s'"

text \<open>
  The invariant: the pool has no duplicates and holds only allocated renderers, its
  length is within the bound the eviction check enforces, the containers are exactly the
  ones allocated, and every handle returned is bound to its own container, which belongs
  to the handle's renderer.
\<close>

definition owner :: "('c, 'i, 'd) world \<Rightarrow> cid \<rightharpoonup> rid" where
  "owner w = map_option sess_renderer \<circ> sessions w"

definition reacord_inv :: "('c, 'i, 'd) sys \<Rightarrow> bool" where
  "reacord_inv s =
     (case s of (w, hs) \<Rightarrow>
        distinct (renderers w) \<and> (\<forall>r\<in>set (renderers w). r < next_rid w) \<and>
        int (length (renderers w)) \<le> max (max_instances (config w) + 1) 0 \<and>
        dom (sessions w) = {..<next_cid w} \<and>
        (\<forall>inst\<in>set hs. owner w (inst_container inst) = Some (inst_renderer inst)) \<and>
        distinct (map inst_container hs))"

inductive_cases reacord_step_elim: "reacord_step E s s'"

section \<open>The pool-level effect of each operation\<close>

lemma evict_if_full_pool:
  assumes "evict_if_full E w = (res, w1)"
  shows "(renderers w1 = renderers w \<or>
          (\<exists>x\<in>set (renderers w). renderers w1 = filter (\<lambda>it. it \<noteq> x) (renderers w))) \<and>
         (res = Inr () \<longrightarrow> int (length (renderers w)) > max_instances (config w) \<longrightarrow>
            length (renderers w1) < length (renderers w)) \<and>
         (res = Inr () \<longrightarrow> \<not> int (length (renderers w)) > max_instances (config w) \<longrightarrow> w1 = w)"
  using assms
  by (auto simp: evict_if_full_def deactivate_eq le_imp_less_Suc split: if_splits list.splits)

lemma create_instance_result:
  assumes "evict_if_full E w = (Inr (), w1)" and "create_instance E r init w = (Inr inst, w')"
  shows "inst = \<lparr>inst_renderer = r, inst_container = next_cid w1\<rparr>"
  using assms
  by (cases init) (auto simp: create_instance_after_check Let_def split: prod.splits sum.splits)

lemma owner_dom: "dom (owner w) = dom (sessions w)"
  by (simp add: owner_def)

lemma reacord_inv_handles:
  "reacord_inv (w, hs) \<Longrightarrow> inst \<in> set hs \<Longrightarrow> inst_container inst < next_cid w"
  by (auto simp: reacord_inv_def owner_dom [symmetric])

section \<open>Each operation keeps the invariant\<close>

lemma reacord_inv_create_fresh:
  assumes inv: "reacord_inv (w, hs)"
    and w0: "w0 = w\<lparr>robjs := X, next_rid := Suc (next_rid w)\<rparr>"
    and ci: "create_instance E (next_rid w) init w0 = (res, w')"
  shows "reacord_inv (w', hs @ issued res)"
proof -
  let ?r = "next_rid w" and ?m = "max_instances (config w)"
  obtain res1 w1 where ev: "evict_if_full E w0 = (res1, w1)" by fastforce
  from evict_if_full_frame [OF ev] w0 have fr1: "config w1 = config w" "sessions w1 = sessions w"
    "next_cid w1 = next_cid w" "next_rid w1 = Suc ?r" by simp_all
  from evict_if_full_pool [OF ev] w0 have pool1:
    "renderers w1 = renderers w \<or> (\<exists>x\<in>set (renderers w). renderers w1 = filter (\<lambda>it. it \<noteq> x) (renderers w))"
    "res1 = Inr () \<Longrightarrow> int (length (renderers w)) > ?m \<Longrightarrow> length (renderers w1) < length (renderers w)"
    "res1 = Inr () \<Longrightarrow> \<not> int (length (renderers w)) > ?m \<Longrightarrow> w1 = w0"
    by simp_all
  from inv have d: "distinct (renderers w)" and lt: "\<forall>r\<in>set (renderers w). r < ?r"
    and bd: "int (length (renderers w)) \<le> max (?m + 1) 0"
    and dm: "dom (sessions w) = {..<next_cid w}"
    and hs: "\<forall>inst\<in>set hs. owner w (inst_container inst) = Some (inst_renderer inst)"
    and dh: "distinct (map inst_container hs)"
    by (simp_all add: reacord_inv_def)
  from pool1(1) d have d1: "distinct (renderers w1)" and s1: "set (renderers w1) \<subseteq> set (renderers w)"
    and l1: "length (renderers w1) \<le> length (renderers w)"
    by (auto intro: length_filter_le)
  have lt1: "\<forall>r\<in>set (renderers w1). r < Suc ?r"
  proof
    fix r assume "r \<in> set (renderers w1)"
    with s1 have "r \<in> set (renderers w)" by (rule subsetD)
    with lt have "r < ?r" by (rule bspec)
    then show "r < Suc ?r" by (rule less_SucI)
  qed
  show ?thesis
  proof (cases res1)
    case (Inl e)
    with ci ev have "res = Inl e" "w' = w1"
      by (simp_all add: create_instance_check_fails)
    moreover from l1 bd have "int (length (renderers w1)) \<le> max (?m + 1) 0" by linarith
    moreover have "owner w1 = owner w" by (simp add: owner_def fr1)
    ultimately show ?thesis using d1 lt1 dm hs dh fr1
      unfolding reacord_inv_def by simp
  next
    case (Inr u)
    then have ev': "evict_if_full E w0 = (Inr (), w1)" using ev by simp
    note fr2 = create_instance_after_check_frame [OF ev' ci]
    from fr2 fr1 have rw': "renderers w' = renderers w1 @ [?r]" and cf': "config w' = config w"
      and nr': "next_rid w' = Suc ?r" and nc': "next_cid w' = Suc (next_cid w)"
      and own: "owner w' = (owner w)(next_cid w \<mapsto> ?r)"
      by (simp_all add: owner_def)
    have fresh: "?r \<notin> set (renderers w1)"
    proof
      assume "?r \<in> set (renderers w1)"
      with s1 have "?r \<in> set (renderers w)" by (rule subsetD)
      with lt have "?r < ?r" by (rule bspec)
      then show False by simp
    qed
    have len: "int (length (renderers w')) \<le> max (max_instances (config w') + 1) 0"
    proof (cases "int (length (renderers w)) > ?m")
      case True
      with pool1(2) Inr have "length (renderers w1) < length (renderers w)" by simp
      with rw' cf' bd show ?thesis by simp
    next
      case False
      with pool1(3) Inr w0 have "renderers w1 = renderers w" by simp
      with rw' cf' False show ?thesis by simp
    qed
    have dom': "dom (sessions w') = {..<next_cid w'}"
    proof -
      have "dom (owner w') = insert (next_cid w) (dom (owner w))" by (simp add: own)
      then show ?thesis by (simp add: owner_dom dm nc' lessThan_Suc)
    qed
    have ne: "\<forall>inst\<in>set hs. inst_container inst \<noteq> next_cid w"
    proof
      fix inst assume "inst \<in> set hs"
      from reacord_inv_handles [OF inv this] show "inst_container inst \<noteq> next_cid w" by simp
    qed
    have old: "\<forall>inst\<in>set hs. owner w' (inst_container inst) = Some (inst_renderer inst)"
      using hs ne by (simp add: own)
    have new: "\<forall>inst\<in>set (issued res). inst = \<lparr>inst_renderer = ?r, inst_container = next_cid w\<rparr>"
      using create_instance_result [OF ev'] ci fr1 by (cases res) auto
    have dh': "distinct (map inst_container (hs @ issued res))"
    proof (cases res)
      case (Inl e)
      with dh show ?thesis by simp
    next
      case (Inr inst)
      with new have "inst_container inst = next_cid w" by simp
      moreover have "next_cid w \<notin> inst_container ` set hs"
      proof
        assume "next_cid w \<in> inst_container ` set hs"
        then obtain i where i: "i \<in> set hs" and eq: "next_cid w = inst_container i" by (rule imageE)
        from ne i have "inst_container i \<noteq> next_cid w" by (rule bspec)
        with eq show False by simp
      qed
      ultimately show ?thesis using dh Inr by simp
    qed
    have hs': "\<forall>inst\<in>set (hs @ issued res). owner w' (inst_container inst) = Some (inst_renderer inst)"
      using old new own by auto
    have "distinct (renderers w')" using rw' d1 fresh by simp
    moreover have "\<forall>r\<in>set (renderers w'). r < next_rid w'" using lt1 by (simp add: rw' nr')
    ultimately show ?thesis using len dom' hs' dh'
      unfolding reacord_inv_def by simp
  qed
qed

lemma reacord_inv_frame:
  assumes inv: "reacord_inv (w, hs)"
    and rs: "renderers w' = filter P (renderers w)" and cf: "config w' = config w"
    and nr: "next_rid w' = next_rid w" and own: "owner w' = owner w" and nc: "next_cid w' = next_cid w"
  shows "reacord_inv (w', hs)"
proof -
  from inv have d: "distinct (renderers w)" and lt: "\<forall>r\<in>set (renderers w). r < next_rid w"
    and bd: "int (length (renderers w)) \<le> max (max_instances (config w) + 1) 0"
    and dm: "dom (sessions w) = {..<next_cid w}"
    and hs: "\<forall>inst\<in>set hs. owner w (inst_container inst) = Some (inst_renderer inst)"
    and dh: "distinct (map inst_container hs)"
    by (simp_all add: reacord_inv_def)
  have "length (renderers w') \<le> length (renderers w)" by (simp add: rs length_filter_le)
  with bd have "int (length (renderers w')) \<le> max (max_instances (config w') + 1) 0"
    by (simp add: cf)
  moreover have "dom (sessions w') = {..<next_cid w'}"
    using dm by (simp add: owner_dom [symmetric] own nc)
  moreover have "\<forall>r\<in>set (renderers w'). r < next_rid w'" using lt by (simp add: rs nr)
  ultimately show ?thesis using d hs dh
    unfolding reacord_inv_def by (simp add: rs own)
qed

text \<open>A render, a deactivation and a destruction keep the invariant, whichever instance they act on.\<close>

lemma reacord_inv_render:
  assumes "reacord_inv (w, hs)" and "render E inst c w = (res, w')"
  shows "reacord_inv (w', hs)"
  using update_container_frame [OF assms(2) [unfolded render_def]]
    update_container_owner [OF assms(2) [unfolded render_def]]
  by (intro reacord_inv_frame [OF assms(1), where P = "\<lambda>_. True"]) (simp_all add: owner_def)

lemma reacord_inv_instance_deactivate:
  assumes "reacord_inv (w, hs)" and "instance_deactivate E inst w = (res, w')"
  shows "reacord_inv (w', hs)"
  using assms(2)
  by (intro reacord_inv_frame [OF assms(1), where P = "\<lambda>it. it \<noteq> inst_renderer inst"])
    (auto simp: instance_deactivate_def deactivate_eq owner_def)

lemma reacord_inv_instance_destroy:
  assumes "reacord_inv (w, hs)" and "instance_destroy E inst w = (res, w')"
  shows "reacord_inv (w', hs)"
  using assms(2)
  by (intro reacord_inv_frame [OF assms(1), where P = "\<lambda>it. it \<noteq> inst_renderer inst"])
    (auto simp: instance_destroy_eq owner_def)

lemma reacord_inv_init: "reacord_inv (init_world cfg, [])"
  by (simp add: reacord_inv_def init_world_def)

lemma reacord_step_inv:
  assumes "reacord_step E s s'" and "reacord_inv s"
  shows "reacord_inv s'"
  using assms
proof (induction rule: reacord_step.induct)
  case (send ch init w res w' hs)
  then show ?case
    by (simp add: create_renderer_instance_eq reacord_inv_create_fresh)
next
  case (reply ci init w res w' hs)
  then show ?case
    by (simp add: create_renderer_instance_eq reacord_inv_create_fresh)
next
  case (render inst hs c w res w')
  from render(3,2) show ?case by (rule reacord_inv_render)
next
  case (deactivate inst hs w res w')
  from deactivate(3,2) show ?case by (rule reacord_inv_instance_deactivate)
next
  case (destroy inst hs w res w')
  from destroy(3,2) show ?case by (rule reacord_inv_instance_destroy)
next
  case (interaction i w res w' hs)
  from handle_component_interaction_offers_pool [OF interaction(1)]
  have "w' = w\<lparr>calls := calls w'\<rparr>" by blast
  then have "(renderers w', config w', next_rid w', sessions w', next_cid w') =
             (renderers w, config w, next_rid w, sessions w, next_cid w)"
    by (rule arg_cong [where f = "\<lambda>x. (renderers x, config x, next_rid x, sessions x, next_cid x)",
          THEN trans]) simp
  then show ?case
    by (intro reacord_inv_frame [OF interaction(2), where P = "\<lambda>_. True"]) (simp_all add: owner_def)
qed

lemma reachable_inv: "reachable E cfg s \<Longrightarrow> reacord_inv s"
  by (induction rule: reachable.induct) (auto intro: reacord_inv_init reacord_step_inv)

lemma reacord_step_config:
  assumes "reacord_step E (w, hs) (w', hs')"
  shows "config w' = config w"
  using assms
proof (cases rule: reacord_step.cases)
  case (send ch init res)
  then show ?thesis
    using create_instance_config by (fastforce simp: create_renderer_instance_eq)
next
  case (reply ci init res)
  then show ?thesis
    using create_instance_config by (fastforce simp: create_renderer_instance_eq)
next
  case (render inst c res)
  then show ?thesis using update_container_frame by (fastforce simp: render_def)
next
  case (deactivate inst res)
  then show ?thesis by (auto simp: instance_deactivate_def deactivate_eq)
next
  case (destroy inst res)
  then show ?thesis by (auto simp: instance_destroy_eq)
next
  case (interaction i res)
  from handle_component_interaction_offers_pool [OF interaction(2)]
  have "w' = w\<lparr>calls := calls w'\<rparr>" by blast
  then have "config w' = config (w\<lparr>calls := calls w'\<rparr>)" by (rule arg_cong)
  then show ?thesis by simp
qed

lemma reachable_config: "reachable E cfg s \<Longrightarrow> config (fst s) = cfg"
proof (induction rule: reachable.induct)
  case init
  then show ?case by (simp add: init_world_def)
next
  case (step s s')
  then show ?case by (cases s, cases s') (auto dest: reacord_step_config)
qed

lemma create_instance_owner:
  assumes "create_instance E r init w = (res, w')"
  shows "owner w' = owner w \<or> owner w' = (owner w)(next_cid w \<mapsto> r)"
proof -
  obtain res1 w1 where ev: "evict_if_full E w = (res1, w1)" by fastforce
  have fr: "sessions w1 = sessions w \<and> next_cid w1 = next_cid w"
    using evict_if_full_frame [OF ev] by simp
  show ?thesis
  proof (cases res1)
    case (Inl e)
    with ev assms fr show ?thesis by (simp add: create_instance_check_fails owner_def)
  next
    case (Inr u)
    with ev have "evict_if_full E w = (Inr (), w1)" by simp
    from create_instance_after_check_frame [OF this assms] fr show ?thesis
      by (simp add: owner_def)
  qed
qed

lemma reacord_step_owner:
  assumes "reacord_step E (w, hs) (w', hs')"
  shows "owner w' = owner w \<or> (\<exists>r. owner w' = (owner w)(next_cid w \<mapsto> r))"
  using assms
proof (cases rule: reacord_step.cases)
  case (send ch init res)
  then have "create_instance E (next_rid w) init
      (w\<lparr>robjs := (robjs w)(next_rid w \<mapsto> ChannelMessageRenderer ch), next_rid := Suc (next_rid w)\<rparr>) = (res, w')"
    by (simp add: create_renderer_instance_eq)
  from create_instance_owner [OF this] show ?thesis by (auto simp: owner_def)
next
  case (reply ci init res)
  then have "create_instance E (next_rid w) init
      (w\<lparr>robjs := (robjs w)(next_rid w \<mapsto> CommandReplyRenderer ci), next_rid := Suc (next_rid w)\<rparr>) = (res, w')"
    by (simp add: create_renderer_instance_eq)
  from create_instance_owner [OF this] show ?thesis by (auto simp: owner_def)
next
  case (render inst c res)
  from update_container_owner [OF render(3) [unfolded render_def]]
  show ?thesis by (simp add: owner_def)
next
  case (deactivate inst res)
  then show ?thesis by (auto simp: instance_deactivate_def deactivate_eq owner_def)
next
  case (destroy inst res)
  then show ?thesis by (auto simp: instance_destroy_eq owner_def)
next
  case (interaction i res)
  from handle_component_interaction_offers_pool [OF interaction(2)]
  have "w' = w\<lparr>calls := calls w'\<rparr>" by blast
  then have "sessions w' = sessions (w\<lparr>calls := calls w'\<rparr>)" by (rule arg_cong)
  then show ?thesis by (simp add: owner_def)
qed

end
