(* ===== verification/Packages.thy ===== *)
theory Packages
  imports System
begin

text \<open>
  The packages variant of class \<open>Reacord\<close> (src/packages/reacord/library/core/reacord.tsx).
  Its pool, eviction and dispatch are written as in the library variant; it differs in
  what \<open>render\<close> hands to the reconciler: the content wrapped in
  \<open><InstanceProvider value={instance}>\<close>, the React context that lets components reach
  their own instance, and the initial content goes through \<open>instance.render\<close>.  It has no
  facade of its own: adapters outside \<open>src/\<close> build a renderer and call
  \<open>createInstance\<close> from \<open>send\<close>, \<open>reply\<close> and \<open>ephemeralReply\<close>.

  The definitions below translate that file method by method.  A context provider adds
  no host element, so a renderer receives the same operations for wrapped and unwrapped
  content; \<open>strip_world\<close> erases the wrapper, and the lemmas show that every operation of
  the packages variant, run against a renderer that does not see the wrapper
  (\<open>lift_env E\<close>), refines the library operation run against \<open>E\<close>.
\<close>

section \<open>Operations\<close>

text \<open>\<open>handleComponentInteraction\<close>: the \<open>for ... of\<close> loop, stopping at the first claim.\<close>

fun pkg_offer_interaction :: "('c, 'i) env \<Rightarrow> 'i \<Rightarrow> rid list \<Rightarrow> (unit, 'c, 'i, 'd) act" where
  "pkg_offer_interaction E interaction [] = ereturn ()"
| "pkg_offer_interaction E interaction (renderer # rest) =
     ebind (call_renderer E (HandleComponentInteraction renderer interaction))
       (\<lambda>handled. if handled then ereturn () else pkg_offer_interaction E interaction rest)"

definition pkg_handle_component_interaction :: "('c, 'i) env \<Rightarrow> 'i \<Rightarrow> (unit, 'c, 'i, 'd) act" where
  "pkg_handle_component_interaction E interaction w =
     pkg_offer_interaction E interaction (renderers w) w"

text \<open>\<open>get maxInstances() { return this.config.maxInstances ?? 50 }\<close>\<close>

definition pkg_max_instances :: "reacord_config \<Rightarrow> int" where
  "pkg_max_instances cfg = (case maxInstances cfg of None \<Rightarrow> 50 | Some n \<Rightarrow> n)"

text \<open>\<open>private deactivate(renderer)\<close>\<close>

definition pkg_deactivate :: "('c, 'i) env \<Rightarrow> rid \<Rightarrow> (unit, 'c, 'i, 'd) act" where
  "pkg_deactivate E renderer =
     ebind (emodify (\<lambda>w. w\<lparr>renderers := filter (\<lambda>it. it \<noteq> renderer) (renderers w)\<rparr>))
       (\<lambda>_. call_void E (Deactivate renderer))"

text \<open>The capacity check at the start of \<open>createInstance\<close>.\<close>

definition pkg_evict_if_full :: "('c, 'i) env \<Rightarrow> (unit, 'c, 'i, 'd) act" where
  "pkg_evict_if_full E w =
     (if int (length (renderers w)) > pkg_max_instances (config w) then
        (case renderers w of [] \<Rightarrow> (Inl TypeError, w) | oldest # _ \<Rightarrow> pkg_deactivate E oldest w)
      else (Inr (), w))"

text \<open>
  The closures of the instance.  \<open>render\<close> wraps the content in the provider of the
  instance itself.
\<close>

definition pkg_render :: "('c, 'i) env \<Rightarrow> reacord_instance \<Rightarrow> 'c \<Rightarrow> (unit, 'c, 'i, 'd) act" where
  "pkg_render E instance content =
     update_container E (InstanceProvider instance content) (inst_container instance)"

definition pkg_instance_deactivate :: "('c, 'i) env \<Rightarrow> reacord_instance \<Rightarrow> (unit, 'c, 'i, 'd) act" where
  "pkg_instance_deactivate E instance = pkg_deactivate E (inst_renderer instance)"

definition pkg_instance_destroy :: "('c, 'i) env \<Rightarrow> reacord_instance \<Rightarrow> (unit, 'c, 'i, 'd) act" where
  "pkg_instance_destroy E instance =
     ebind (emodify (\<lambda>w. w\<lparr>renderers := filter (\<lambda>it. it \<noteq> inst_renderer instance) (renderers w)\<rparr>))
       (\<lambda>_. call_void E (Destroy (inst_renderer instance)))"

text \<open>
  \<open>protected createInstance(renderer, initialContent?)\<close>: the instance is built before
  the initial render, which goes through \<open>instance.render\<close>.
\<close>

definition pkg_create_instance ::
  "('c, 'i) env \<Rightarrow> rid \<Rightarrow> 'c option \<Rightarrow> (reacord_instance, 'c, 'i, 'd) act" where
  "pkg_create_instance E renderer initialContent =
     ebind (pkg_evict_if_full E) (\<lambda>_.
     ebind (emodify (\<lambda>w. w\<lparr>renderers := renderers w @ [renderer]\<rparr>)) (\<lambda>_.
     ebind (create_container renderer) (\<lambda>container.
     let instance = \<lparr>inst_renderer = renderer, inst_container = container\<rparr> in
     ebind (case initialContent of
              None \<Rightarrow> ereturn ()
            | Some c \<Rightarrow> pkg_render E instance c) (\<lambda>_.
     ereturn instance))))"

section \<open>Erasing the context provider\<close>

text \<open>
  \<open>strip_node\<close> drops the provider; it extends to calls, errors, sessions and worlds.
  \<open>lift_env E\<close> is a renderer that answers a call as \<open>E\<close> answers its stripped form.
\<close>

fun strip_node :: "'c react_node \<Rightarrow> 'c react_node" where
  "strip_node (Content c) = Content c"
| "strip_node (InstanceProvider instance c) = Content c"

fun strip_call :: "('c, 'i) call \<Rightarrow> ('c, 'i) call" where
  "strip_call (ApplyDiff r old new) = ApplyDiff r (map_option strip_node old) (strip_node new)"
| "strip_call c = c"

fun strip_error :: "('c, 'i) error \<Rightarrow> ('c, 'i) error" where
  "strip_error TypeError = TypeError"
| "strip_error (Raised c) = Raised (strip_call c)"

definition strip_session :: "'c session \<Rightarrow> 'c session" where
  "strip_session s = s\<lparr>sess_content := map_option strip_node (sess_content s)\<rparr>"

definition strip_world :: "('c, 'i, 'd) world \<Rightarrow> ('c, 'i, 'd) world" where
  "strip_world w =
     w\<lparr>sessions := map_option strip_session \<circ> sessions w, calls := map strip_call (calls w)\<rparr>"

definition lift_env :: "('c, 'i) env \<Rightarrow> ('c, 'i) env" where
  "lift_env E h c = E (map strip_call h) (strip_call c)"

abbreviation strip_out where
  "strip_out \<equiv> eabs strip_error strip_world"

section \<open>Each operation refines its library counterpart\<close>

lemma strip_world_simps [simp]:
  "renderers (strip_world w) = renderers w" "config (strip_world w) = config w"
  "robjs (strip_world w) = robjs w" "next_rid (strip_world w) = next_rid w"
  "next_cid (strip_world w) = next_cid w" "calls (strip_world w) = map strip_call (calls w)"
  "sessions (strip_world w) = map_option strip_session \<circ> sessions w"
  by (simp_all add: strip_world_def)

lemma strip_world_update:
  "strip_world (w\<lparr>renderers := rs\<rparr>) = (strip_world w)\<lparr>renderers := rs\<rparr>"
  "strip_world (w\<lparr>calls := calls w @ [c]\<rparr>) = (strip_world w)\<lparr>calls := calls (strip_world w) @ [strip_call c]\<rparr>"
  "strip_world (w\<lparr>sessions := (sessions w)(k \<mapsto> s)\<rparr>) =
     (strip_world w)\<lparr>sessions := (sessions (strip_world w))(k \<mapsto> strip_session s)\<rparr>"
  by (simp_all add: strip_world_def fun_eq_iff)

lemma pkg_max_instances_eq: "pkg_max_instances = max_instances"
  by (simp add: fun_eq_iff pkg_max_instances_def max_instances_def)

lemma strip_call_renderer:
  "strip_out (call_renderer (lift_env E) c w) = call_renderer E (strip_call c) (strip_world w)"
  by (simp add: call_renderer_result lift_env_def eabs_def strip_world_update split: reply.splits)

lemma strip_call_void:
  "strip_out (call_void (lift_env E) c w) = call_void E (strip_call c) (strip_world w)"
  unfolding call_void_def
  by (rule eabs_ebind) (rule strip_call_renderer, rule eabs_ereturn)

lemma strip_update_container:
  "strip_out (update_container (lift_env E) el c w) = update_container E (strip_node el) c (strip_world w)"
proof (cases "sessions w c")
  case None
  then show ?thesis by (simp add: update_container_dead eabs_def)
next
  case (Some s)
  then have "sessions (strip_world w) c = Some (strip_session s)" by simp
  with Some show ?thesis
    by (simp add: update_container_live Let_def lift_env_def eabs_def strip_world_update
        strip_session_def)
qed

lemma strip_create_container:
  "strip_out (create_container r w) = create_container r (strip_world w)"
  unfolding create_container_def eabs_pair
  by (simp add: strip_world_def strip_session_def fun_eq_iff)

lemma strip_deactivate:
  "strip_out (pkg_deactivate (lift_env E) r w) = deactivate E r (strip_world w)"
  unfolding pkg_deactivate_def deactivate_def
  by (rule eabs_ebind, rule eabs_emodify) (simp_all add: strip_world_update strip_call_void)

lemma strip_evict_if_full:
  "strip_out (pkg_evict_if_full (lift_env E) w) = evict_if_full E (strip_world w)"
  by (cases "renderers w")
    (simp_all add: pkg_evict_if_full_def evict_if_full_def pkg_max_instances_eq strip_deactivate)

lemma strip_render:
  "strip_out (pkg_render (lift_env E) inst c w) = render E inst c (strip_world w)"
  by (simp add: pkg_render_def render_def strip_update_container)

lemma strip_instance_deactivate:
  "strip_out (pkg_instance_deactivate (lift_env E) inst w) = instance_deactivate E inst (strip_world w)"
  by (simp add: pkg_instance_deactivate_def instance_deactivate_def strip_deactivate)

lemma strip_instance_destroy:
  "strip_out (pkg_instance_destroy (lift_env E) inst w) = instance_destroy E inst (strip_world w)"
  unfolding pkg_instance_destroy_def instance_destroy_def
  by (rule eabs_ebind, rule eabs_emodify) (simp_all add: strip_world_update strip_call_void)

lemma strip_offer_interaction:
  "strip_out (pkg_offer_interaction (lift_env E) i rs w) = offer_interaction E i rs (strip_world w)"
proof (induction rs arbitrary: w)
  case Nil
  then show ?case by (simp add: eabs_ereturn)
next
  case (Cons r rs)
  show ?case
    unfolding pkg_offer_interaction.simps offer_interaction.simps
    apply (rule eabs_ebind)
    subgoal using strip_call_renderer [of E "HandleComponentInteraction r i" w] by simp
    subgoal for b w' by (cases b) (simp_all add: eabs_ereturn Cons.IH)
    done
qed

lemma strip_handle_component_interaction:
  "strip_out (pkg_handle_component_interaction (lift_env E) i w) =
   handle_component_interaction E i (strip_world w)"
  by (simp add: pkg_handle_component_interaction_def handle_component_interaction_def
      strip_offer_interaction)

lemma strip_create_instance:
  "strip_out (pkg_create_instance (lift_env E) r init w) = create_instance E r init (strip_world w)"
  unfolding pkg_create_instance_def create_instance_def Let_def
  apply (rule eabs_ebind, rule strip_evict_if_full)
  apply (rule eabs_ebind, rule eabs_emodify, simp add: strip_world_update)
  apply (rule eabs_ebind, rule strip_create_container)
  apply (rule eabs_ebind)
  subgoal by (cases init) (simp_all add: eabs_ereturn strip_render render_def)
  apply (rule eabs_ereturn)
  done

lemma pkg_evict_if_full_not_full:
  "\<not> int (length (renderers w)) > max_instances (config w) \<Longrightarrow> pkg_evict_if_full E w = (Inr (), w)"
  by (simp add: pkg_evict_if_full_def pkg_max_instances_eq)

section \<open>The running program\<close>

text \<open>
  A step of a program built on the packages variant: an adapter's \<open>send\<close>, \<open>reply\<close> or
  \<open>ephemeralReply\<close> allocates some renderer object and calls \<open>createInstance\<close> with it;
  or application code calls a closure of a handle it was given; or an interaction
  arrives.  The state is the world with the handles returned so far, as in the library
  variant.
\<close>

inductive pkg_step :: "('c, 'i) env \<Rightarrow> ('c, 'i, 'd) sys \<Rightarrow> ('c, 'i, 'd) sys \<Rightarrow> bool"
  for E :: "('c, 'i) env" where
  create: "new_renderer obj w = (Inr r, w1) \<Longrightarrow> pkg_create_instance E r init w1 = (res, w') \<Longrightarrow>
         pkg_step E (w, hs) (w', hs @ issued res)"
| render: "inst \<in> set hs \<Longrightarrow> pkg_render E inst c w = (res, w') \<Longrightarrow> pkg_step E (w, hs) (w', hs)"
| deactivate: "inst \<in> set hs \<Longrightarrow> pkg_instance_deactivate E inst w = (res, w') \<Longrightarrow>
         pkg_step E (w, hs) (w', hs)"
| destroy: "inst \<in> set hs \<Longrightarrow> pkg_instance_destroy E inst w = (res, w') \<Longrightarrow>
         pkg_step E (w, hs) (w', hs)"
| interaction: "pkg_handle_component_interaction E i w = (res, w') \<Longrightarrow> pkg_step E (w, hs) (w', hs)"

inductive pkg_reachable :: "('c, 'i) env \<Rightarrow> reacord_config \<Rightarrow> ('c, 'i, 'd) sys \<Rightarrow> bool"
  for E :: "('c, 'i) env" and cfg :: reacord_config where
  init: "pkg_reachable E cfg (init_world cfg, [])"
| step: "pkg_reachable E cfg s \<Longrightarrow> pkg_step E s s' \<Longrightarrow> pkg_reachable E cfg s'"

text \<open>A library step that takes the abstraction of an outcome of the packages variant.\<close>

lemma strip_outcome:
  "strip_out p = q \<Longrightarrow> p = (res, w') \<Longrightarrow> q = (map_sum strip_error id res, strip_world w')"
  by simp

lemma strip_new_renderer:
  "new_renderer obj w = (Inr r, w1) \<Longrightarrow>
   r = next_rid w \<and>
   strip_world w1 = (strip_world w)\<lparr>robjs := (robjs w)(next_rid w \<mapsto> obj), next_rid := Suc (next_rid w)\<rparr>"
  by (auto simp: new_renderer_def strip_world_def)

lemma pkg_step_simulation:
  assumes "pkg_step (lift_env E) (w, hs) (w', hs')"
  shows "reacord_step E (strip_world w, hs) (strip_world w', hs')"
  using assms
proof (cases rule: pkg_step.cases)
  case (create obj r w1 init res)
  then have nr: "new_renderer obj w = (Inr r, w1)"
    and pc: "pkg_create_instance (lift_env E) r init w1 = (res, w')" and hs': "hs' = hs @ issued res"
    by simp_all
  from strip_new_renderer [OF nr] have r: "r = next_rid w"
    and w1: "strip_world w1 = (strip_world w)\<lparr>robjs := (robjs w)(next_rid w \<mapsto> obj),
              next_rid := Suc (next_rid w)\<rparr>" by simp_all
  have ci: "create_instance E r init (strip_world w1) = (map_sum strip_error id res, strip_world w')"
    by (rule strip_outcome [OF strip_create_instance pc])
  show ?thesis
  proof (cases obj)
    case (ChannelMessageRenderer ch)
    with ci r w1 have "create_channel_renderer_instance E ch init (strip_world w) =
        (map_sum strip_error id res, strip_world w')"
      by (simp add: create_renderer_instance_eq)
    from reacord_step.send [OF this] show ?thesis by (simp add: hs')
  next
    case (CommandReplyRenderer ci')
    with ci r w1 have "create_command_reply_renderer_instance E ci' init (strip_world w) =
        (map_sum strip_error id res, strip_world w')"
      by (simp add: create_renderer_instance_eq)
    from reacord_step.reply [OF this] show ?thesis by (simp add: hs')
  qed
next
  case (render inst c res)
  then have "pkg_render (lift_env E) inst c w = (res, w')" and "inst \<in> set hs" and "hs' = hs"
    by simp_all
  from reacord_step.render [OF this(2) strip_outcome [OF strip_render this(1)]] this(3)
  show ?thesis by simp
next
  case (deactivate inst res)
  then have "pkg_instance_deactivate (lift_env E) inst w = (res, w')" and "inst \<in> set hs" and "hs' = hs"
    by simp_all
  from reacord_step.deactivate [OF this(2) strip_outcome [OF strip_instance_deactivate this(1)]] this(3)
  show ?thesis by simp
next
  case (destroy inst res)
  then have "pkg_instance_destroy (lift_env E) inst w = (res, w')" and "inst \<in> set hs" and "hs' = hs"
    by simp_all
  from reacord_step.destroy [OF this(2) strip_outcome [OF strip_instance_destroy this(1)]] this(3)
  show ?thesis by simp
next
  case (interaction i res)
  then have "pkg_handle_component_interaction (lift_env E) i w = (res, w')" and "hs' = hs"
    by simp_all
  from reacord_step.interaction [OF strip_outcome [OF strip_handle_component_interaction this(1)]] this(2)
  show ?thesis by simp
qed

lemma strip_init_world [simp]: "strip_world (init_world cfg) = init_world cfg"
  by (simp add: strip_world_def init_world_def fun_eq_iff)

lemma pkg_reachable_simulation:
  "pkg_reachable (lift_env E) cfg s \<Longrightarrow> reachable E cfg (strip_world (fst s), snd s)"
proof (induction rule: pkg_reachable.induct)
  case init
  then show ?case by (simp add: reachable.init)
next
  case (step s s')
  obtain w hs w' hs' where s: "s = (w, hs)" and s': "s' = (w', hs')" by fastforce
  from step.hyps(2) s s' have "reacord_step E (strip_world w, hs) (strip_world w', hs')"
    by (simp add: pkg_step_simulation)
  from reachable.step [OF _ this] step.IH s s' show ?case by simp
qed

lemma sess_renderer_strip [simp]: "sess_renderer (strip_session s) = sess_renderer s"
  by (simp add: strip_session_def)

lemma owner_strip_world [simp]: "owner (strip_world w) = owner w"
  by (simp add: owner_def fun_eq_iff option.map_comp comp_def)

lemma reacord_inv_strip [simp]: "reacord_inv (strip_world w, hs) = reacord_inv (w, hs)"
  by (simp add: reacord_inv_def)

lemma pkg_reachable_inv_lemma:
  "pkg_reachable (lift_env E) cfg (w, hs) \<Longrightarrow> reacord_inv (w, hs)"
  using reachable_inv [OF pkg_reachable_simulation] by fastforce

text \<open>A run of the packages variant used by the examples: one \<open>send\<close> without content.\<close>

abbreviation pkg_handle0 :: reacord_instance where
  "pkg_handle0 \<equiv> \<lparr>inst_renderer = 0, inst_container = 0\<rparr>"

abbreviation pkg_one :: "(nat, nat, nat) world" where
  "pkg_one \<equiv> \<lparr>renderers = [0], config = \<lparr>maxInstances = Some 2\<rparr>,
     robjs = [0 \<mapsto> ChannelMessageRenderer 0], next_rid = 1,
     sessions = [0 \<mapsto> \<lparr>sess_renderer = 0, sess_content = None\<rparr>], next_cid = 1, calls = []\<rparr>"

lemma pkg_step_one:
  "pkg_step (lift_env (quiet_env :: (nat, nat) env))
     (init_world \<lparr>maxInstances = Some 2\<rparr>, []) (pkg_one, [pkg_handle0])"
proof -
  have nr: "new_renderer (ChannelMessageRenderer (0::nat)) (init_world \<lparr>maxInstances = Some 2\<rparr>) =
      (Inr 0, (init_world \<lparr>maxInstances = Some 2\<rparr> :: (nat, nat, nat) world)\<lparr>robjs := [0 \<mapsto> ChannelMessageRenderer 0], next_rid := 1\<rparr>)"
    by (simp add: new_renderer_def init_world_def)
  have ev: "pkg_evict_if_full (lift_env (quiet_env :: (nat, nat) env))
      ((init_world \<lparr>maxInstances = Some 2\<rparr> :: (nat, nat, nat) world)\<lparr>robjs := [0 \<mapsto> ChannelMessageRenderer 0], next_rid := 1\<rparr>) =
      (Inr (), (init_world \<lparr>maxInstances = Some 2\<rparr>)\<lparr>robjs := [0 \<mapsto> ChannelMessageRenderer 0], next_rid := 1\<rparr>)"
    by (rule pkg_evict_if_full_not_full) (simp add: init_world_def max_instances_def)
  have "pkg_create_instance (lift_env (quiet_env :: (nat, nat) env)) 0 None
      ((init_world \<lparr>maxInstances = Some 2\<rparr> :: (nat, nat, nat) world)\<lparr>robjs := [0 \<mapsto> ChannelMessageRenderer 0], next_rid := 1\<rparr>) =
      (Inr pkg_handle0, pkg_one)"
    unfolding pkg_create_instance_def ebind_Inr [where m = "pkg_evict_if_full (lift_env quiet_env)", OF ev]
    by (simp add: init_world_def ereturn_def)
  from pkg_step.create [OF nr this, of "[]"] show ?thesis by simp
qed

lemma pkg_reachable_one:
  "pkg_reachable (lift_env (quiet_env :: (nat, nat) env)) \<lparr>maxInstances = Some 2\<rparr> (pkg_one, [pkg_handle0])"
  by (rule pkg_reachable.step [OF pkg_reachable.init pkg_step_one])

section \<open>Properties of the packages variant\<close>

text \<open>C22: Every operation of the packages variant (createInstance, the render, deactivate and destroy closures, handleComponentInteraction), run against a renderer that does not see the InstanceProvider wrapper, has the outcome of the library operation once the wrapper is erased: the two variants agree on the pool, the containers, the calls made and the errors thrown.\<close>

theorem pkg_operations_refine_library:
  "strip_out (pkg_create_instance (lift_env E) r init w) = create_instance E r init (strip_world w) \<and>
   strip_out (pkg_render (lift_env E) inst c w) = render E inst c (strip_world w) \<and>
   strip_out (pkg_instance_deactivate (lift_env E) inst w) = instance_deactivate E inst (strip_world w) \<and>
   strip_out (pkg_instance_destroy (lift_env E) inst w) = instance_destroy E inst (strip_world w) \<and>
   strip_out (pkg_handle_component_interaction (lift_env E) i w) =
     handle_component_interaction E i (strip_world w)"
  by (simp add: strip_create_instance strip_render strip_instance_deactivate strip_instance_destroy
      strip_handle_component_interaction)

text \<open>C23: Without eviction, the packages variant's createInstance renders the initial content wrapped in an InstanceProvider whose value is the very instance it returns, sent to the new renderer as one diff from nothing.\<close>

theorem pkg_create_instance_initial_render:
  assumes "\<not> int (length (renderers w)) > max_instances (config w)"
    and "E (calls w) (ApplyDiff r None (InstanceProvider \<lparr>inst_renderer = r, inst_container = next_cid w\<rparr> c)) \<noteq> Throws"
  shows "pkg_create_instance E r (Some c) w =
    (let inst = \<lparr>inst_renderer = r, inst_container = next_cid w\<rparr> in
     (Inr inst,
      w\<lparr>renderers := renderers w @ [r],
        sessions := (sessions w)(next_cid w \<mapsto> \<lparr>sess_renderer = r, sess_content = Some (InstanceProvider inst c)\<rparr>),
        next_cid := Suc (next_cid w),
        calls := calls w @ [ApplyDiff r None (InstanceProvider inst c)]\<rparr>))"
  unfolding pkg_create_instance_def
  using assms
  by (simp add: ebind_Inr [of "pkg_evict_if_full E" w, OF pkg_evict_if_full_not_full [OF assms(1)]]
      pkg_render_def update_container_live ebind_ereturn_right Let_def)

theorem pkg_create_instance_initial_render_witness:
  "\<not> int (length (renderers (sample_world [0]))) > max_instances (config (sample_world [0])) \<and>
   quiet_env (calls (sample_world [0])) (ApplyDiff 3 None (InstanceProvider \<lparr>inst_renderer = 3, inst_container = 1\<rparr> (7::nat))) \<noteq> Throws \<and>
   pkg_create_instance quiet_env 3 (Some 7) (sample_world [0]) =
    (Inr \<lparr>inst_renderer = 3, inst_container = 1\<rparr>,
     (sample_world [0, 3])\<lparr>sessions := [0 \<mapsto> \<lparr>sess_renderer = 0, sess_content = None\<rparr>,
        1 \<mapsto> \<lparr>sess_renderer = 3, sess_content = Some (InstanceProvider \<lparr>inst_renderer = 3, inst_container = 1\<rparr> 7)\<rparr>],
       next_cid := 2, calls := [ApplyDiff 3 None (InstanceProvider \<lparr>inst_renderer = 3, inst_container = 1\<rparr> 7)]\<rparr>)"
  using pkg_create_instance_initial_render [of "sample_world [0]" quiet_env 3 7]
  by (simp add: quiet_env_def max_instances_def Let_def)

text \<open>C24: Every step of a program built on the packages variant, against a renderer that does not see the wrapper, is a step of the library variant's program once the wrapper is erased (send/reply map to the facade's constructors for the renderer object the adapter allocated).\<close>

theorem pkg_step_refines_reacord_step:
  assumes "pkg_step (lift_env E) (w, hs) (w', hs')"
  shows "reacord_step E (strip_world w, hs) (strip_world w', hs')"
  using assms by (rule pkg_step_simulation)

theorem pkg_step_refines_reacord_step_witness:
  "pkg_step (lift_env (quiet_env :: (nat, nat) env)) (init_world \<lparr>maxInstances = Some 2\<rparr>, []) (pkg_one, [pkg_handle0]) \<and>
   reacord_step (quiet_env :: (nat, nat) env) (strip_world (init_world \<lparr>maxInstances = Some 2\<rparr>), [])
     (strip_world pkg_one, [pkg_handle0])"
  using pkg_step_refines_reacord_step [OF pkg_step_one] pkg_step_one by simp

text \<open>C25: Every state a program built on the packages variant reaches satisfies the library's invariant: the pool has no duplicates and holds only allocated renderers, it never exceeds maxInstances + 1, the containers are the allocated ones, and each returned handle owns its own container, bound to the handle's renderer.\<close>

theorem pkg_reachable_invariant:
  assumes "pkg_reachable (lift_env E) cfg (w, hs)"
  shows "reacord_inv (w, hs)"
  using assms by (rule pkg_reachable_inv_lemma)

theorem pkg_reachable_invariant_witness:
  "pkg_reachable (lift_env (quiet_env :: (nat, nat) env)) \<lparr>maxInstances = Some 2\<rparr> (pkg_one, [pkg_handle0]) \<and>
   reacord_inv (pkg_one, [pkg_handle0])"
  using pkg_reachable_invariant [OF pkg_reachable_one] pkg_reachable_one by simp

text \<open>C26: In every reachable state of the packages variant, render on a handle the program holds sends exactly one diff, to the handle's own renderer, whose new element is the content wrapped in a provider of that same handle, whether or not the renderer throws.\<close>

theorem pkg_render_own_instance:
  assumes "pkg_reachable (lift_env E) cfg (w, hs)" and "inst \<in> set hs"
    and "pkg_render (lift_env E) inst c w = (res, w')"
  shows "\<exists>old. calls w' = calls w @ [ApplyDiff (inst_renderer inst) old (InstanceProvider inst c)]"
proof -
  from pkg_reachable_inv_lemma [OF assms(1)] assms(2)
  have "owner w (inst_container inst) = Some (inst_renderer inst)"
    by (simp add: reacord_inv_def)
  then obtain s where s: "sessions w (inst_container inst) = Some s" "sess_renderer s = inst_renderer inst"
    by (auto simp: owner_def)
  with assms(3) show ?thesis
    by (auto simp: pkg_render_def update_container_live Let_def split: if_splits)
qed

theorem pkg_render_own_instance_witness:
  "pkg_reachable (lift_env (quiet_env :: (nat, nat) env)) \<lparr>maxInstances = Some 2\<rparr> (pkg_one, [pkg_handle0]) \<and>
   pkg_handle0 \<in> set [pkg_handle0] \<and>
   calls (snd (pkg_render (lift_env (quiet_env :: (nat, nat) env)) pkg_handle0 7 pkg_one)) =
     [ApplyDiff 0 None (InstanceProvider pkg_handle0 7)]"
proof -
  let ?r = "pkg_render (lift_env (quiet_env :: (nat, nat) env)) pkg_handle0 7 pkg_one"
  have "?r = (fst ?r, snd ?r)" by simp
  from pkg_render_own_instance [OF pkg_reachable_one _ this] obtain old where
    "calls (snd ?r) = [ApplyDiff 0 old (InstanceProvider pkg_handle0 7)]" by auto
  moreover have "calls (snd ?r) = [ApplyDiff 0 None (InstanceProvider pkg_handle0 7)]"
    by (simp add: pkg_render_def update_container_live Let_def lift_env_def quiet_env_def)
  ultimately show ?thesis using pkg_reachable_one by simp
qed

end
