(* ===== verification/Runs.thy ===== *)
theory Runs
  imports Packages
begin

text \<open>
  Properties of runs: sequences of calls into the core as application code makes them.
  \<open>run_sends\<close> is a caller that sends one message per channel of a list, without
  initial content, through the library facade (\<open>createChannelRendererInstance\<close>), and
  collects the handles.  The lemmas give the pool and the calls after such a run: a full
  pool turns over in FIFO order.  Two consecutive renders show the bridge's diff base,
  and an invariant of the heap (allocated identities, containers owned by allocated
  renderers, at most one container per renderer) holds in every reachable state.
\<close>

section \<open>A run of sends\<close>

fun run_sends :: "('c, 'i) env \<Rightarrow> 'd list \<Rightarrow> (reacord_instance list, 'c, 'i, 'd) act" where
  "run_sends E [] = ereturn []"
| "run_sends E (ch # chs) =
     ebind (create_channel_renderer_instance E ch None) (\<lambda>inst.
     ebind (run_sends E chs) (\<lambda>insts. ereturn (inst # insts)))"

text \<open>One send when the pool is over the bound: the oldest renderer goes, the new one is appended.\<close>

lemma send_full_pool:
  assumes "renderers w = oldest # rest" and "distinct (renderers w)"
    and "int (length (renderers w)) > max_instances (config w)"
    and "E (calls w) (Deactivate oldest) \<noteq> Throws"
  shows "create_channel_renderer_instance E ch None w =
    (Inr \<lparr>inst_renderer = next_rid w, inst_container = next_cid w\<rparr>,
     w\<lparr>renderers := rest @ [next_rid w], robjs := (robjs w)(next_rid w \<mapsto> ChannelMessageRenderer ch),
       next_rid := Suc (next_rid w),
       sessions := (sessions w)(next_cid w \<mapsto> \<lparr>sess_renderer = next_rid w, sess_content = None\<rparr>),
       next_cid := Suc (next_cid w), calls := calls w @ [Deactivate oldest]\<rparr>)"
proof -
  let ?w1 = "w\<lparr>robjs := (robjs w)(next_rid w \<mapsto> ChannelMessageRenderer ch), next_rid := Suc (next_rid w)\<rparr>"
  from assms have "evict_if_full E ?w1 =
      (Inr (), ?w1\<lparr>renderers := rest, calls := calls w @ [Deactivate oldest]\<rparr>)"
    using evict_if_full_evicts [of ?w1 oldest rest E] by simp
  then show ?thesis
    by (simp add: create_renderer_instance_eq create_instance_after_check Let_def)
qed

lemma run_sends_full_pool:
  assumes "renderers w \<noteq> []" and "distinct (renderers w)"
    and "set (renderers w) \<subseteq> {..<next_rid w}"
    and "int (length (renderers w)) > max_instances (config w)"
    and "\<forall>h r. E h (Deactivate r) \<noteq> Throws"
  shows "fst (run_sends E chs w) =
           Inr (map (\<lambda>k. \<lparr>inst_renderer = next_rid w + k, inst_container = next_cid w + k\<rparr>) [0..<length chs]) \<and>
         renderers (snd (run_sends E chs w)) =
           drop (length chs) (renderers w @ [next_rid w..<next_rid w + length chs]) \<and>
         calls (snd (run_sends E chs w)) =
           calls w @ map Deactivate (take (length chs) (renderers w @ [next_rid w..<next_rid w + length chs])) \<and>
         config (snd (run_sends E chs w)) = config w"
  using assms
proof (induction chs arbitrary: w)
  case Nil
  then show ?case by (simp add: ereturn_def)
next
  case (Cons ch chs)
  from Cons.prems(1) obtain oldest rest where rs: "renderers w = oldest # rest"
    by (cases "renderers w") auto
  let ?w' = "w\<lparr>renderers := rest @ [next_rid w], robjs := (robjs w)(next_rid w \<mapsto> ChannelMessageRenderer ch),
       next_rid := Suc (next_rid w),
       sessions := (sessions w)(next_cid w \<mapsto> \<lparr>sess_renderer = next_rid w, sess_content = None\<rparr>),
       next_cid := Suc (next_cid w), calls := calls w @ [Deactivate oldest]\<rparr>"
  have send: "create_channel_renderer_instance E ch None w =
      (Inr \<lparr>inst_renderer = next_rid w, inst_container = next_cid w\<rparr>, ?w')"
    using send_full_pool [OF rs Cons.prems(2,4)] Cons.prems(5) by simp
  have fresh: "next_rid w \<notin> set (renderers w)" using Cons.prems(3) by auto
  have "renderers ?w' \<noteq> [] \<and> distinct (renderers ?w') \<and> set (renderers ?w') \<subseteq> {..<next_rid ?w'} \<and>
        int (length (renderers ?w')) > max_instances (config ?w')"
    using Cons.prems(2-4) rs fresh by (auto simp: less_Suc_eq)
  then have IH: "fst (run_sends E chs ?w') =
           Inr (map (\<lambda>k. \<lparr>inst_renderer = next_rid ?w' + k, inst_container = next_cid ?w' + k\<rparr>) [0..<length chs]) \<and>
         renderers (snd (run_sends E chs ?w')) =
           drop (length chs) (renderers ?w' @ [next_rid ?w'..<next_rid ?w' + length chs]) \<and>
         calls (snd (run_sends E chs ?w')) =
           calls ?w' @ map Deactivate (take (length chs) (renderers ?w' @ [next_rid ?w'..<next_rid ?w' + length chs])) \<and>
         config (snd (run_sends E chs ?w')) = config ?w'"
    using Cons.IH [of ?w'] Cons.prems(5) by blast
  have ups: "[next_rid w..<next_rid w + length (ch # chs)] = next_rid w # [Suc (next_rid w)..<Suc (next_rid w) + length chs]"
    by (simp add: upt_rec)
  obtain res w2 where r2: "run_sends E chs ?w' = (res, w2)" by fastforce
  have run: "run_sends E (ch # chs) w = (map_sum id (Cons \<lparr>inst_renderer = next_rid w, inst_container = next_cid w\<rparr>) res, w2)"
    unfolding run_sends.simps ebind_Inr [where m = "create_channel_renderer_instance E ch None", OF send]
    using r2 by (cases res) (simp_all add: ebind_def ereturn_def)
  have maps: "map (\<lambda>k. \<lparr>inst_renderer = next_rid w + k, inst_container = next_cid w + k\<rparr>) [0..<Suc (length chs)] =
      \<lparr>inst_renderer = next_rid w, inst_container = next_cid w\<rparr> #
      map (\<lambda>k. \<lparr>inst_renderer = Suc (next_rid w) + k, inst_container = Suc (next_cid w) + k\<rparr>) [0..<length chs]"
    by (simp add: map_upt_Suc del: upt_Suc)
  show ?case
    using IH r2 run rs ups maps by simp
qed

section \<open>Consecutive renders\<close>

lemma render_live:
  assumes "sessions w (inst_container inst) = Some s" and "render E inst c w = (Inr (), w1)"
  shows "w1 = w\<lparr>calls := calls w @ [ApplyDiff (sess_renderer s) (sess_content s) (Content c)],
                sessions := (sessions w)(inst_container inst \<mapsto> s\<lparr>sess_content := Some (Content c)\<rparr>)\<rparr>"
  using assms by (simp add: render_def update_container_live Let_def split: if_splits)

section \<open>The heap of renderer objects\<close>

text \<open>
  Renderer objects are allocated at \<open>next_rid\<close> and never freed (JavaScript collects
  them only once unreachable).  \<open>heap_ok\<close>: the allocated identities are exactly those
  below \<open>next_rid\<close>, every container belongs to an allocated renderer, and no renderer
  owns two containers.
\<close>

definition heap_ok :: "('c, 'i, 'd) world \<Rightarrow> bool" where
  "heap_ok w = (dom (robjs w) = {..<next_rid w} \<and> ran (owner w) \<subseteq> dom (robjs w) \<and>
                inj_on (owner w) (dom (owner w)))"

lemma create_instance_robjs:
  assumes "create_instance E r init w = (res, w')"
  shows "robjs w' = robjs w"
proof -
  obtain res1 w1 where ev: "evict_if_full E w = (res1, w1)" by fastforce
  have fr: "robjs w1 = robjs w" using evict_if_full_frame [OF ev] by simp
  show ?thesis
  proof (cases res1)
    case (Inl e)
    with ev assms fr show ?thesis by (simp add: create_instance_check_fails)
  next
    case (Inr u)
    with ev have "evict_if_full E w = (Inr (), w1)" by simp
    from create_instance_after_check_frame [OF this assms] fr show ?thesis by simp
  qed
qed

text \<open>
  What one step does to the heap: nothing, or the allocation of one renderer object at
  \<open>next_rid\<close>, which may get the next container.
\<close>

definition alloc_step :: "('c, 'i, 'd) world \<Rightarrow> ('c, 'i, 'd) world \<Rightarrow> bool" where
  "alloc_step w w' =
     ((robjs w' = robjs w \<and> next_rid w' = next_rid w \<and> owner w' = owner w) \<or>
      ((\<exists>obj. robjs w' = (robjs w)(next_rid w \<mapsto> obj)) \<and> next_rid w' = Suc (next_rid w) \<and>
       (owner w' = owner w \<or> owner w' = (owner w)(next_cid w \<mapsto> next_rid w))))"

lemma alloc_step_create:
  assumes "create_instance E (next_rid w) init
             (w\<lparr>robjs := (robjs w)(next_rid w \<mapsto> obj), next_rid := Suc (next_rid w)\<rparr>) = (res, w')"
  shows "alloc_step w w'"
proof -
  let ?w1 = "w\<lparr>robjs := (robjs w)(next_rid w \<mapsto> obj), next_rid := Suc (next_rid w)\<rparr>"
  have "robjs w' = (robjs w)(next_rid w \<mapsto> obj)" using create_instance_robjs [OF assms] by simp
  moreover have "next_rid w' = Suc (next_rid w)" using create_instance_config [OF assms] by simp
  moreover have "owner w' = owner w \<or> owner w' = (owner w)(next_cid w \<mapsto> next_rid w)"
    using create_instance_owner [OF assms] by (simp add: owner_def)
  ultimately show ?thesis by (auto simp: alloc_step_def)
qed

lemma alloc_step_frame:
  "robjs w' = robjs w \<Longrightarrow> next_rid w' = next_rid w \<Longrightarrow> owner w' = owner w \<Longrightarrow> alloc_step w w'"
  by (simp add: alloc_step_def)

lemma reacord_step_alloc:
  assumes "reacord_step E (w, hs) (w', hs')"
  shows "alloc_step w w'"
  using assms
proof (cases rule: reacord_step.cases)
  case (send ch init res)
  then show ?thesis by (simp add: create_renderer_instance_eq alloc_step_create)
next
  case (reply ci init res)
  then show ?thesis by (simp add: create_renderer_instance_eq alloc_step_create)
next
  case (render inst c res)
  then have u: "update_container E (Content c) (inst_container inst) w = (res, w')"
    by (simp add: render_def)
  have own: "owner w' = owner w" using update_container_owner [OF u] by (simp add: owner_def)
  from update_container_frame [OF u] have "robjs w' = robjs w" "next_rid w' = next_rid w" by simp_all
  from alloc_step_frame [OF this own] show ?thesis .
next
  case (deactivate inst res)
  then have "robjs w' = robjs w \<and> next_rid w' = next_rid w \<and> owner w' = owner w"
    by (auto simp: instance_deactivate_def deactivate_eq owner_def)
  then show ?thesis by (simp add: alloc_step_def)
next
  case (destroy inst res)
  then have "robjs w' = robjs w \<and> next_rid w' = next_rid w \<and> owner w' = owner w"
    by (auto simp: instance_destroy_eq owner_def)
  then show ?thesis by (simp add: alloc_step_def)
next
  case (interaction i res)
  then have "w' = w\<lparr>calls := calls w'\<rparr>"
    by (simp add: handle_component_interaction_def offer_interaction_frame)
  then have "robjs w' = robjs w \<and> next_rid w' = next_rid w \<and> owner w' = owner w"
    by (metis owner_def world.select_convs world.surjective world.update_convs(7))
  then show ?thesis by (simp add: alloc_step_def)
qed

lemma heap_ok_alloc_step:
  assumes ok: "heap_ok w" and st: "alloc_step w w'"
  shows "heap_ok w'"
proof -
  from ok have dm: "dom (robjs w) = {..<next_rid w}" and rn: "ran (owner w) \<subseteq> {..<next_rid w}"
    and inj: "inj_on (owner w) (dom (owner w))"
    unfolding heap_ok_def by auto
  have fresh: "next_rid w \<notin> ran (owner w)" using rn by auto
  have upd: "ran ((owner w)(next_cid w \<mapsto> next_rid w)) \<subseteq> insert (next_rid w) (ran (owner w))"
    by (auto simp: ran_def split: if_splits)
  show ?thesis
  proof (cases "robjs w' = robjs w \<and> next_rid w' = next_rid w \<and> owner w' = owner w")
    case True
    with ok show ?thesis unfolding heap_ok_def by (elim conjE) (intro conjI; simp)
  next
    case False
    with st obtain obj where ro: "robjs w' = (robjs w)(next_rid w \<mapsto> obj)"
      and nr: "next_rid w' = Suc (next_rid w)"
      and own: "owner w' = owner w \<or> owner w' = (owner w)(next_cid w \<mapsto> next_rid w)"
      by (auto simp: alloc_step_def)
    have "insert (next_rid w) (ran (owner w)) \<subseteq> {..<Suc (next_rid w)}" using rn by auto
    with own upd have "ran (owner w') \<subseteq> {..<Suc (next_rid w)}" by auto
    moreover have "inj_on (owner w') (dom (owner w'))"
      using own inj inj_on_map_upd_fresh [OF inj fresh] by auto
    ultimately show ?thesis using dm ro nr by (simp add: heap_ok_def lessThan_Suc)
  qed
qed

lemma reachable_heap_ok: "reachable E cfg s \<Longrightarrow> heap_ok (fst s)"
proof (induction rule: reachable.induct)
  case init
  then show ?case by (simp add: heap_ok_def init_world_def owner_def)
next
  case (step s s')
  then show ?case
    using heap_ok_alloc_step reacord_step_alloc [of E "fst s" "snd s" "fst s'" "snd s'"] by simp
qed

section \<open>Properties of runs\<close>

text \<open>C27: When the pool is over its bound and renderers accept deactivate(), as many further sends as the pool holds renderers deactivate every renderer of the pool, oldest first, before anything else, and remove them all from the pool; the sends never throw.\<close>

theorem full_pool_turns_over:
  assumes "renderers w \<noteq> []" and "distinct (renderers w)"
    and "set (renderers w) \<subseteq> {..<next_rid w}"
    and "int (length (renderers w)) > max_instances (config w)"
    and "\<forall>h r. E h (Deactivate r) \<noteq> Throws"
    and "length (renderers w) \<le> length chs"
  shows "set (renderers w) \<inter> set (renderers (snd (run_sends E chs w))) = {} \<and>
         take (length (renderers w)) (drop (length (calls w)) (calls (snd (run_sends E chs w)))) =
           map Deactivate (renderers w) \<and>
         (\<exists>insts. fst (run_sends E chs w) = Inr insts)"
proof -
  let ?run = "run_sends E chs w"
  let ?news = "[next_rid w..<next_rid w + length chs]"
  have F: "fst ?run = Inr (map (\<lambda>k. \<lparr>inst_renderer = next_rid w + k, inst_container = next_cid w + k\<rparr>) [0..<length chs])"
    and R: "renderers (snd ?run) = drop (length chs) (renderers w @ ?news)"
    and C: "calls (snd ?run) = calls w @ map Deactivate (take (length chs) (renderers w @ ?news))"
    using run_sends_full_pool [OF assms(1-5), of chs] by blast+
  have "drop (length chs) (renderers w @ ?news) = drop (length chs - length (renderers w)) ?news"
    using assms(6) by (simp add: drop_append del: drop_upt)
  then have "set (renderers (snd ?run)) \<subseteq> set ?news"
    unfolding R by (metis set_drop_subset)
  moreover have "set (renderers w) \<inter> set ?news = {}"
    using assms(3) by auto
  ultimately have disj: "set (renderers w) \<inter> set (renderers (snd ?run)) = {}"
    by blast
  have eq: "take (length (renderers w)) (take (length chs) (renderers w @ ?news)) = renderers w"
    using assms(6) by (simp add: min_absorb1)
  have d: "drop (length (calls w)) (calls (snd ?run)) =
      map Deactivate (take (length chs) (renderers w @ ?news))"
    unfolding C by simp
  have tk: "take (length (renderers w)) (drop (length (calls w)) (calls (snd ?run))) =
      map Deactivate (renderers w)"
    by (simp only: d take_map eq)
  from disj tk F show ?thesis by blast
qed

theorem full_pool_turns_over_witness:
  "renderers (sample_world [0, 1, 2]) \<noteq> [] \<and> distinct (renderers (sample_world [0, 1, 2])) \<and>
   set (renderers (sample_world [0, 1, 2])) \<subseteq> {..<next_rid (sample_world [0, 1, 2])} \<and>
   int (length (renderers (sample_world [0, 1, 2]))) > max_instances (config (sample_world [0, 1, 2])) \<and>
   (\<forall>h r. (quiet_env :: (nat, nat) env) h (Deactivate r) \<noteq> Throws) \<and>
   length (renderers (sample_world [0, 1, 2])) \<le> length [5, 6, 7::nat] \<and>
   set (renderers (sample_world [0, 1, 2])) \<inter>
     set (renderers (snd (run_sends (quiet_env :: (nat, nat) env) [5, 6, 7] (sample_world [0, 1, 2])))) = {} \<and>
   take (length (renderers (sample_world [0, 1, 2])))
     (drop (length (calls (sample_world [0, 1, 2])))
       (calls (snd (run_sends (quiet_env :: (nat, nat) env) [5, 6, 7] (sample_world [0, 1, 2]))))) =
     map Deactivate (renderers (sample_world [0, 1, 2]))"
proof -
  have h1: "renderers (sample_world [0, 1, 2]) \<noteq> []" by simp
  have h2: "distinct (renderers (sample_world [0, 1, 2]))" by simp
  have h3: "set (renderers (sample_world [0, 1, 2])) \<subseteq> {..<next_rid (sample_world [0, 1, 2])}" by auto
  have h4: "int (length (renderers (sample_world [0, 1, 2]))) > max_instances (config (sample_world [0, 1, 2]))"
    by (simp add: max_instances_def)
  have h5: "\<forall>h r. (quiet_env :: (nat, nat) env) h (Deactivate r) \<noteq> Throws" by (simp add: quiet_env_def)
  have h6: "length (renderers (sample_world [0, 1, 2])) \<le> length [5, 6, 7::nat]" by simp
  note T = full_pool_turns_over [OF h1 h2 h3 h4 h5 h6]
  from h1 h2 h3 h4 h5 h6 T show ?thesis by (intro conjI) (erule conjE | assumption)+
qed

text \<open>C28: Two consecutive successful renders of one instance: the first sends its content as a diff from the container's current element, the second sends a diff whose base is exactly the content the first applied, both to the container's renderer, and the container then holds the second content.\<close>

theorem render_render_diff_base:
  assumes "sessions w (inst_container inst) = Some s"
    and "render E inst c1 w = (Inr (), w1)" and "render E inst c2 w1 = (Inr (), w2)"
  shows "calls w2 = calls w @ [ApplyDiff (sess_renderer s) (sess_content s) (Content c1),
                               ApplyDiff (sess_renderer s) (Some (Content c1)) (Content c2)] \<and>
         sessions w2 (inst_container inst) = Some (s\<lparr>sess_content := Some (Content c2)\<rparr>)"
proof -
  note w1 = render_live [OF assms(1,2)]
  have "sessions w1 (inst_container inst) = Some (s\<lparr>sess_content := Some (Content c1)\<rparr>)"
    by (simp add: w1)
  note w2 = render_live [OF this assms(3)]
  show ?thesis by (simp add: w1 w2)
qed

theorem render_render_diff_base_witness:
  "sessions (sample_world [0]) 0 = Some \<lparr>sess_renderer = 0, sess_content = None\<rparr> \<and>
   render quiet_env \<lparr>inst_renderer = 0, inst_container = 0\<rparr> (7::nat) (sample_world [0]) =
     (Inr (), (sample_world [0])\<lparr>sessions := [0 \<mapsto> \<lparr>sess_renderer = 0, sess_content = Some (Content 7)\<rparr>],
                                 calls := [ApplyDiff 0 None (Content 7)]\<rparr>) \<and>
   render quiet_env \<lparr>inst_renderer = 0, inst_container = 0\<rparr> 8
     ((sample_world [0])\<lparr>sessions := [0 \<mapsto> \<lparr>sess_renderer = 0, sess_content = Some (Content 7)\<rparr>],
                         calls := [ApplyDiff 0 None (Content 7)]\<rparr>) =
     (Inr (), (sample_world [0])\<lparr>sessions := [0 \<mapsto> \<lparr>sess_renderer = 0, sess_content = Some (Content 8)\<rparr>],
                                 calls := [ApplyDiff 0 None (Content 7), ApplyDiff 0 (Some (Content 7)) (Content 8)]\<rparr>) \<and>
   calls ((sample_world [0])\<lparr>sessions := [0 \<mapsto> \<lparr>sess_renderer = 0, sess_content = Some (Content 8)\<rparr>],
                             calls := [ApplyDiff 0 None (Content 7), ApplyDiff 0 (Some (Content 7)) (Content 8)]\<rparr>) =
     [ApplyDiff 0 None (Content 7), ApplyDiff 0 (Some (Content 7)) (Content 8)]"
proof -
  have s: "sessions (sample_world [0]) 0 = Some \<lparr>sess_renderer = 0, sess_content = None\<rparr>" by simp
  have r1: "render quiet_env \<lparr>inst_renderer = 0, inst_container = 0\<rparr> (7::nat) (sample_world [0]) =
     (Inr (), (sample_world [0])\<lparr>sessions := [0 \<mapsto> \<lparr>sess_renderer = 0, sess_content = Some (Content 7)\<rparr>],
                                 calls := [ApplyDiff 0 None (Content 7)]\<rparr>)"
    by (simp add: render_def update_container_live quiet_env_def)
  have r2: "render quiet_env \<lparr>inst_renderer = 0, inst_container = 0\<rparr> 8
     ((sample_world [0])\<lparr>sessions := [0 \<mapsto> \<lparr>sess_renderer = 0, sess_content = Some (Content 7)\<rparr>],
                         calls := [ApplyDiff 0 None (Content 7)]\<rparr>) =
     (Inr (), (sample_world [0])\<lparr>sessions := [0 \<mapsto> \<lparr>sess_renderer = 0, sess_content = Some (Content 8)\<rparr>],
                                 calls := [ApplyDiff 0 None (Content 7), ApplyDiff 0 (Some (Content 7)) (Content 8)]\<rparr>)"
    by (simp add: render_def update_container_live quiet_env_def)
  from render_render_diff_base [OF _ r1 r2] s r1 r2 show ?thesis by simp
qed

end
