(* ===== verification/Reentrant.thy ===== *)
theory Reentrant
  imports Runs
begin

text \<open>
  Arrays as objects, and handlers that re-enter the core.  In JavaScript the field
  \<open>this.renderers\<close> points to an array object: \<open>this.renderers.push(renderer)\<close>
  (\<open>createInstance\<close>) mutates that object, while \<open>this.renderers = this.renderers.filter(...)\<close>
  (\<open>deactivate\<close>, \<open>destroy\<close>) allocates a new array and repoints the field.
  \<open>for (const renderer of this.renderers)\<close> (\<open>handleComponentInteraction\<close>) iterates
  the object the field pointed to when the loop started, reading its current length at
  every step.  A renderer's \<open>handleComponentInteraction\<close> runs the event handlers of
  its components, which may call back into the core (send a message, render, deactivate
  or destroy an instance) before the renderer answers.

  This theory models the field as a pointer into a store of arrays, as the heap of
  Imperative HOL does, and the callbacks as a list of re-entrant operations chosen by
  an oracle.  The other theories' value-level pool is the abstraction \<open>js_abs\<close>: the
  array the field points to.  The theory proves that each operation refines its
  value-level counterpart, that the live loop terminates (a \<open>function\<close> with a measure
  bounded by the pool's capacity), how the operations change the arrays allocated
  before them, and that the loop offers an interaction along the array object it
  started with, which only grows while it runs.  Theory \<open>JsSystem\<close> builds the running
  program on it.
\<close>

section \<open>The store of arrays\<close>

type_synonym aid = nat

record ('c, 'i, 'd) jsworld =
  arrays :: "aid \<Rightarrow> rid list"
  cur :: aid
  lim :: aid
  base :: "('c, 'i, 'd) world"

type_synonym ('a, 'c, 'i, 'd) jsact = "(('c, 'i) error, 'a, ('c, 'i, 'd) jsworld) exn"

text \<open>The value-level world: the pool is the array \<open>this.renderers\<close> points to.\<close>

definition js_abs :: "('c, 'i, 'd) jsworld \<Rightarrow> ('c, 'i, 'd) world" where
  "js_abs s = (base s)\<lparr>renderers := arrays s (cur s)\<rparr>"

text \<open>An operation of the other components (reconciler, renderer calls, allocation), run on the rest of the world.\<close>

definition on_base :: "('a, 'c, 'i, 'd) act \<Rightarrow> ('a, 'c, 'i, 'd) jsact" where
  "on_base m s = (case m (base s) of (r, b) \<Rightarrow> (r, s\<lparr>base := b\<rparr>))"

text \<open>\<open>this.renderers = this.renderers.filter((it) => it !== renderer)\<close>: a new array.\<close>

definition js_assign_filtered :: "rid \<Rightarrow> ('c, 'i, 'd) jsworld \<Rightarrow> ('c, 'i, 'd) jsworld" where
  "js_assign_filtered renderer s =
     s\<lparr>arrays := (arrays s)(lim s := filter (\<lambda>it. it \<noteq> renderer) (arrays s (cur s))),
       cur := lim s, lim := Suc (lim s)\<rparr>"

text \<open>\<open>this.renderers.push(renderer)\<close>: the array object itself grows.\<close>

definition js_push :: "rid \<Rightarrow> ('c, 'i, 'd) jsworld \<Rightarrow> ('c, 'i, 'd) jsworld" where
  "js_push renderer s = s\<lparr>arrays := (arrays s)(cur s := arrays s (cur s) @ [renderer])\<rparr>"

section \<open>The class at the level of array objects\<close>

definition js_deactivate :: "('c, 'i) env \<Rightarrow> rid \<Rightarrow> (unit, 'c, 'i, 'd) jsact" where
  "js_deactivate E renderer =
     ebind (emodify (js_assign_filtered renderer)) (\<lambda>_. on_base (call_void E (Deactivate renderer)))"

definition js_evict_if_full :: "('c, 'i) env \<Rightarrow> (unit, 'c, 'i, 'd) jsact" where
  "js_evict_if_full E s =
     (if int (length (arrays s (cur s))) > max_instances (config (base s)) then
        (case arrays s (cur s) of [] \<Rightarrow> (Inl TypeError, s) | oldest # _ \<Rightarrow> js_deactivate E oldest s)
      else (Inr (), s))"

definition js_create_instance ::
  "('c, 'i) env \<Rightarrow> rid \<Rightarrow> 'c option \<Rightarrow> (reacord_instance, 'c, 'i, 'd) jsact" where
  "js_create_instance E renderer initialContent =
     ebind (js_evict_if_full E) (\<lambda>_.
     ebind (emodify (js_push renderer)) (\<lambda>_.
     ebind (on_base (create_container renderer)) (\<lambda>container.
     ebind (case initialContent of
              None \<Rightarrow> ereturn ()
            | Some c \<Rightarrow> on_base (update_container E (Content c) container)) (\<lambda>_.
     ereturn \<lparr>inst_renderer = renderer, inst_container = container\<rparr>))))"

definition js_render :: "('c, 'i) env \<Rightarrow> reacord_instance \<Rightarrow> 'c \<Rightarrow> (unit, 'c, 'i, 'd) jsact" where
  "js_render E inst content = on_base (update_container E (Content content) (inst_container inst))"

definition js_instance_deactivate :: "('c, 'i) env \<Rightarrow> reacord_instance \<Rightarrow> (unit, 'c, 'i, 'd) jsact" where
  "js_instance_deactivate E inst = js_deactivate E (inst_renderer inst)"

definition js_instance_destroy :: "('c, 'i) env \<Rightarrow> reacord_instance \<Rightarrow> (unit, 'c, 'i, 'd) jsact" where
  "js_instance_destroy E inst =
     ebind (emodify (js_assign_filtered (inst_renderer inst)))
       (\<lambda>_. on_base (call_void E (Destroy (inst_renderer inst))))"

definition js_create_channel_renderer_instance ::
  "('c, 'i) env \<Rightarrow> 'd \<Rightarrow> 'c option \<Rightarrow> (reacord_instance, 'c, 'i, 'd) jsact" where
  "js_create_channel_renderer_instance E channel initialContent =
     ebind (on_base (new_renderer (ChannelMessageRenderer channel)))
       (\<lambda>renderer. js_create_instance E renderer initialContent)"

definition js_create_command_reply_renderer_instance ::
  "('c, 'i) env \<Rightarrow> 'd \<Rightarrow> 'c option \<Rightarrow> (reacord_instance, 'c, 'i, 'd) jsact" where
  "js_create_command_reply_renderer_instance E commandInteraction initialContent =
     ebind (on_base (new_renderer (CommandReplyRenderer commandInteraction)))
       (\<lambda>renderer. js_create_instance E renderer initialContent)"

section \<open>Handlers that re-enter the core\<close>

text \<open>
  What a component's event handler may do to the core while its renderer handles an
  interaction: send or reply (a new instance through the facade), or call a closure of
  an instance.  \<open>R h r i\<close> is the list of these calls the components of renderer \<open>r\<close>
  make when it is offered interaction \<open>i\<close> after the history \<open>h\<close>; the renderer then
  answers as \<open>E\<close> says.  Handlers are application code, outside \<open>src/\<close>.
\<close>

datatype ('c, 'd) reentry =
    ReSend 'd "'c option"
  | ReReply 'd "'c option"
  | ReRender reacord_instance 'c
  | ReDeactivate reacord_instance
  | ReDestroy reacord_instance

type_synonym ('c, 'i, 'd) handlers = "('c, 'i) call list \<Rightarrow> rid \<Rightarrow> 'i \<Rightarrow> ('c, 'd) reentry list"

fun run_reentry :: "('c, 'i) env \<Rightarrow> ('c, 'd) reentry \<Rightarrow> (unit, 'c, 'i, 'd) jsact" where
  "run_reentry E (ReSend ch init) = ebind (js_create_channel_renderer_instance E ch init) (\<lambda>_. ereturn ())"
| "run_reentry E (ReReply ci init) =
     ebind (js_create_command_reply_renderer_instance E ci init) (\<lambda>_. ereturn ())"
| "run_reentry E (ReRender inst c) = js_render E inst c"
| "run_reentry E (ReDeactivate inst) = js_instance_deactivate E inst"
| "run_reentry E (ReDestroy inst) = js_instance_destroy E inst"

fun run_reentries :: "('c, 'i) env \<Rightarrow> ('c, 'd) reentry list \<Rightarrow> (unit, 'c, 'i, 'd) jsact" where
  "run_reentries E [] = ereturn ()"
| "run_reentries E (op # ops) = ebind (run_reentry E op) (\<lambda>_. run_reentries E ops)"

text \<open>\<open>renderer.handleComponentInteraction(interaction)\<close>, with the handlers it runs.\<close>

definition js_offer ::
  "('c, 'i) env \<Rightarrow> ('c, 'i, 'd) handlers \<Rightarrow> rid \<Rightarrow> 'i \<Rightarrow> (bool, 'c, 'i, 'd) jsact" where
  "js_offer E R renderer interaction s =
     (let c = HandleComponentInteraction renderer interaction; h = calls (base s) in
      ebind (run_reentries E (R h renderer interaction))
        (\<lambda>_. case E h c of Returns b \<Rightarrow> ereturn b | Throws \<Rightarrow> eraise (Raised c))
        (s\<lparr>base := (base s)\<lparr>calls := h @ [c]\<rparr>\<rparr>))"

text \<open>
  \<open>for (const renderer of this.renderers) { if (renderer.handleComponentInteraction(interaction)) return }\<close>:
  the iterator holds the array object \<open>a\<close> and an index \<open>k\<close>, and reads the array's
  current length and element at every step.  The recursion is not structural: the
  array may grow while it is iterated; its termination is proved below.
\<close>

lemma ebind_cong [fundef_cong]:
  "m = m' \<Longrightarrow> s = s' \<Longrightarrow> (\<And>a s''. m' s' = (Inr a, s'') \<Longrightarrow> f a s'' = f' a s'') \<Longrightarrow>
   ebind m f s = ebind m' f' s'"
  by (cases "m' s'" rule: prod.exhaust, rename_tac r s1, case_tac r) (auto simp: ebind_def)

function js_for_of ::
  "('c, 'i) env \<Rightarrow> ('c, 'i, 'd) handlers \<Rightarrow> 'i \<Rightarrow> aid \<Rightarrow> nat \<Rightarrow> (unit, 'c, 'i, 'd) jsact" where
  "js_for_of E R interaction a k s =
     (if k < length (arrays s a) then
        ebind (js_offer E R (arrays s a ! k) interaction)
          (\<lambda>handled s'. if handled then (Inr (), s') else js_for_of E R interaction a (Suc k) s') s
      else (Inr (), s))"
  by pat_completeness auto

definition js_handle_component_interaction ::
  "('c, 'i) env \<Rightarrow> ('c, 'i, 'd) handlers \<Rightarrow> 'i \<Rightarrow> (unit, 'c, 'i, 'd) jsact" where
  "js_handle_component_interaction E R interaction s = js_for_of E R interaction (cur s) 0 s"

section \<open>How far an array can grow\<close>

text \<open>
  \<open>pool_cap s\<close>: the length of the current array or \<open>maxInstances + 1\<close>, whichever is
  larger.  No operation makes an array longer than this, and none raises it: \<open>push\<close>
  happens only after the capacity check, on an array of at most \<open>maxInstances\<close>
  renderers or on the fresh array the eviction's \<open>filter\<close> allocated.
\<close>

definition pool_cap :: "('c, 'i, 'd) jsworld \<Rightarrow> nat" where
  "pool_cap s = max (length (arrays s (cur s))) (nat (max_instances (config (base s)) + 1))"

definition grows_within :: "('c, 'i, 'd) jsworld \<Rightarrow> ('c, 'i, 'd) jsworld \<Rightarrow> bool" where
  "grows_within s s' =
     (config (base s') = config (base s) \<and> pool_cap s' \<le> pool_cap s \<and>
      (\<forall>b. length (arrays s' b) \<le> max (length (arrays s b)) (pool_cap s)))"

definition bounded :: "('a, 'c, 'i, 'd) jsact \<Rightarrow> bool" where
  "bounded m = (\<forall>s r s'. m s = (r, s') \<longrightarrow> grows_within s s')"

section \<open>Each operation refines its value-level counterpart\<close>

text \<open>
  An operation is blind to the pool when it neither reads nor writes \<open>renderers\<close>;
  such an operation run on the rest of the world refines itself.
\<close>

definition pool_blind :: "('a, 'c, 'i, 'd) act \<Rightarrow> bool" where
  "pool_blind m = (\<forall>b rs. m (b\<lparr>renderers := rs\<rparr>) = (fst (m b), (snd (m b))\<lparr>renderers := rs\<rparr>))"

lemma eabs_on_base:
  "pool_blind m \<Longrightarrow> eabs id js_abs (on_base m s) = m (js_abs s)"
  by (simp add: pool_blind_def on_base_def js_abs_def eabs_def map_sum.id split: prod.splits)

lemma pool_blind_call_void: "pool_blind (call_void E c)"
  by (simp add: pool_blind_def call_void_result)

lemma pool_blind_create_container: "pool_blind (create_container r)"
  unfolding pool_blind_def create_container_def by (intro allI) simp

lemma pool_blind_update_container: "pool_blind (update_container E el c)"
  by (auto simp: pool_blind_def update_container_def ebind_def call_void_result emodify_def
      split: option.splits)

lemma pool_blind_new_renderer: "pool_blind (new_renderer obj)"
  by (simp add: pool_blind_def new_renderer_def)

lemmas pool_blind_ops = pool_blind_call_void pool_blind_create_container
  pool_blind_update_container pool_blind_new_renderer

lemma js_abs_assign_filtered:
  "js_abs (js_assign_filtered r s) = (js_abs s)\<lparr>renderers := filter (\<lambda>it. it \<noteq> r) (renderers (js_abs s))\<rparr>"
  by (simp add: js_abs_def js_assign_filtered_def)

lemma js_abs_push:
  "js_abs (js_push r s) = (js_abs s)\<lparr>renderers := renderers (js_abs s) @ [r]\<rparr>"
  by (simp add: js_abs_def js_push_def)

lemma js_abs_simps [simp]:
  "renderers (js_abs s) = arrays s (cur s)" "config (js_abs s) = config (base s)"
  by (simp_all add: js_abs_def)

lemma js_deactivate_refines:
  "eabs id js_abs (js_deactivate E r s) = deactivate E r (js_abs s)"
  unfolding js_deactivate_def deactivate_def
  by (rule eabs_ebind, rule eabs_emodify, rule js_abs_assign_filtered)
    (rule eabs_on_base, rule pool_blind_call_void)

lemma js_evict_if_full_refines:
  "eabs id js_abs (js_evict_if_full E s) = evict_if_full E (js_abs s)"
  by (cases "arrays s (cur s)")
    (simp_all add: js_evict_if_full_def evict_if_full_def js_deactivate_refines map_sum.id)

lemma js_create_instance_refines:
  "eabs id js_abs (js_create_instance E r init s) = create_instance E r init (js_abs s)"
  unfolding js_create_instance_def create_instance_def
  apply (rule eabs_ebind, rule js_evict_if_full_refines)
  apply (rule eabs_ebind, rule eabs_emodify, rule js_abs_push)
  apply (rule eabs_ebind, rule eabs_on_base, rule pool_blind_create_container)
  apply (rule eabs_ebind)
  subgoal by (cases init) (simp_all add: eabs_ereturn eabs_on_base pool_blind_update_container)
  apply (rule eabs_ereturn)
  done

lemma js_render_refines:
  "eabs id js_abs (js_render E inst c s) = render E inst c (js_abs s)"
  by (simp add: js_render_def render_def eabs_on_base pool_blind_update_container)

lemma js_instance_deactivate_refines:
  "eabs id js_abs (js_instance_deactivate E inst s) = instance_deactivate E inst (js_abs s)"
  by (simp add: js_instance_deactivate_def instance_deactivate_def js_deactivate_refines)

lemma js_instance_destroy_refines:
  "eabs id js_abs (js_instance_destroy E inst s) = instance_destroy E inst (js_abs s)"
  unfolding js_instance_destroy_def instance_destroy_def
  by (rule eabs_ebind, rule eabs_emodify, rule js_abs_assign_filtered)
    (rule eabs_on_base, rule pool_blind_call_void)

lemma js_facade_refines:
  "eabs id js_abs (js_create_channel_renderer_instance E ch init s) =
     create_channel_renderer_instance E ch init (js_abs s)"
  "eabs id js_abs (js_create_command_reply_renderer_instance E ci init s) =
     create_command_reply_renderer_instance E ci init (js_abs s)"
  unfolding js_create_channel_renderer_instance_def create_channel_renderer_instance_def
    js_create_command_reply_renderer_instance_def create_command_reply_renderer_instance_def
  by (rule eabs_ebind, rule eabs_on_base, rule pool_blind_new_renderer, rule js_create_instance_refines)+

section \<open>Termination of the live loop\<close>

lemma grows_within_refl [simp]: "grows_within s s"
  by (auto simp: grows_within_def)

lemma grows_within_trans:
  assumes g1: "grows_within s1 s2" and g2: "grows_within s2 s3"
  shows "grows_within s1 s3"
proof -
  from g1 have c1: "config (base s2) = config (base s1)" and p1: "pool_cap s2 \<le> pool_cap s1"
    and l1: "\<forall>b. length (arrays s2 b) \<le> max (length (arrays s1 b)) (pool_cap s1)"
    by (simp_all add: grows_within_def)
  from g2 have c2: "config (base s3) = config (base s2)" and p2: "pool_cap s3 \<le> pool_cap s2"
    and l2: "\<forall>b. length (arrays s3 b) \<le> max (length (arrays s2 b)) (pool_cap s2)"
    by (simp_all add: grows_within_def)
  have "length (arrays s3 b) \<le> max (length (arrays s1 b)) (pool_cap s1)" for b
  proof -
    have a: "length (arrays s2 b) \<le> max (length (arrays s1 b)) (pool_cap s1)" using l1 by blast
    have c: "pool_cap s2 \<le> max (length (arrays s1 b)) (pool_cap s1)" using p1 by simp
    from a c have "max (length (arrays s2 b)) (pool_cap s2) \<le> max (length (arrays s1 b)) (pool_cap s1)"
      by (rule max.boundedI)
    with l2 show ?thesis by (blast intro: le_trans)
  qed
  with c1 c2 p1 p2 show ?thesis by (simp add: grows_within_def)
qed

lemma boundedD: "bounded m \<Longrightarrow> m s = (r, s') \<Longrightarrow> grows_within s s'"
  by (simp add: bounded_def)

lemma bounded_ereturn: "bounded (ereturn a)"
  by (simp add: bounded_def ereturn_def)

lemma bounded_eraise: "bounded (eraise e)"
  by (simp add: bounded_def eraise_def)

lemma bounded_ebind:
  assumes "bounded m" and "\<And>a. bounded (f a)"
  shows "bounded (ebind m f)"
  unfolding bounded_def
proof (intro allI impI)
  fix s r s'
  assume b: "ebind m f s = (r, s')"
  show "grows_within s s'"
  proof (cases "m s" rule: prod.exhaust)
    case (Pair r1 s1)
    show ?thesis
    proof (cases r1)
      case (Inl e)
      with Pair b assms(1) show ?thesis by (simp add: ebind_def boundedD)
    next
      case (Inr a)
      with Pair b have "f a s1 = (r, s')" by (simp add: ebind_def)
      with Pair Inr assms show ?thesis by (blast intro: grows_within_trans boundedD)
    qed
  qed
qed

text \<open>
  Operations on the rest of the world leave the arrays alone, keep the configuration and
  never lower the next renderer identity.
\<close>

definition base_frame :: "('a, 'c, 'i, 'd) act \<Rightarrow> bool" where
  "base_frame m = (\<forall>b r b'. m b = (r, b') \<longrightarrow> config b' = config b \<and> next_rid b \<le> next_rid b')"

lemma bounded_on_base: "base_frame m \<Longrightarrow> bounded (on_base m)"
  by (auto simp: bounded_def base_frame_def on_base_def grows_within_def pool_cap_def
      split: prod.splits)

lemma base_frame_call_void: "base_frame (call_void E c)"
  by (simp add: base_frame_def call_void_result)

lemma base_frame_create_container: "base_frame (create_container r)"
  unfolding base_frame_def by (intro allI impI) (drule create_container_frame, simp)

lemma base_frame_update_container: "base_frame (update_container E el k)"
  unfolding base_frame_def by (intro allI impI) (drule update_container_frame, simp)

lemma base_frame_new_renderer: "base_frame (new_renderer obj)"
  by (simp add: base_frame_def new_renderer_def)

lemmas base_frame_ops = base_frame_call_void base_frame_create_container
  base_frame_update_container base_frame_new_renderer

lemma bounded_assign_filtered: "bounded (emodify (js_assign_filtered r))"
  unfolding bounded_def emodify_def
proof (intro allI impI)
  fix s res s'
  assume "(Inr (), js_assign_filtered r s) = (res, s')"
  then have s': "s' = js_assign_filtered r s" by simp
  have "length (filter (\<lambda>it. it \<noteq> r) (arrays s (cur s))) \<le> pool_cap s"
    by (rule le_trans [OF length_filter_le]) (simp add: pool_cap_def)
  then show "grows_within s s'"
    by (auto simp: s' grows_within_def js_assign_filtered_def pool_cap_def)
qed

lemma bounded_js_deactivate: "bounded (js_deactivate E r)"
  unfolding js_deactivate_def
  by (intro bounded_ebind bounded_assign_filtered bounded_on_base base_frame_ops)

lemma bounded_js_instance_destroy: "bounded (js_instance_destroy E inst)"
  unfolding js_instance_destroy_def
  by (intro bounded_ebind bounded_assign_filtered bounded_on_base base_frame_ops)

lemma js_deactivate_eq:
  "js_deactivate E r s =
     (if E (calls (base s)) (Deactivate r) = Throws then Inl (Raised (Deactivate r)) else Inr (),
      (js_assign_filtered r s)\<lparr>base := (base s)\<lparr>calls := calls (base s) @ [Deactivate r]\<rparr>\<rparr>)"
  by (simp add: js_deactivate_def on_base_def call_void_result js_assign_filtered_def)

text \<open>A push keeps the growth bound when the array it extends is shorter than the cap.\<close>

lemma grows_within_push:
  assumes g: "grows_within s s1" and len: "Suc (length (arrays s1 (cur s1))) \<le> pool_cap s"
  shows "grows_within s (js_push r s1)"
proof -
  from g have c: "config (base s1) = config (base s)"
    and l: "\<forall>b. length (arrays s1 b) \<le> max (length (arrays s b)) (pool_cap s)"
    by (simp_all add: grows_within_def)
  have m: "nat (max_instances (config (base s)) + 1) \<le> pool_cap s" by (simp add: pool_cap_def)
  have "pool_cap (js_push r s1) \<le> pool_cap s"
    using len m c by (simp add: pool_cap_def js_push_def)
  moreover have "length (arrays (js_push r s1) b) \<le> max (length (arrays s b)) (pool_cap s)" for b
    using len l by (cases "b = cur s1") (auto simp: js_push_def)
  ultimately show ?thesis using c by (simp add: grows_within_def js_push_def)
qed

lemma bounded_evict_push: "bounded (ebind (js_evict_if_full E) (\<lambda>_. emodify (js_push r)))"
  unfolding bounded_def
proof (intro allI impI)
  fix s res s'
  assume run: "ebind (js_evict_if_full E) (\<lambda>_. emodify (js_push r)) s = (res, s')"
  let ?m = "max_instances (config (base s))"
  show "grows_within s s'"
  proof (cases "int (length (arrays s (cur s))) > ?m")
    case False
    then have "js_evict_if_full E s = (Inr (), s)" by (simp add: js_evict_if_full_def)
    with run have s': "s' = js_push r s" by (simp add: ebind_def emodify_def)
    from False have "Suc (length (arrays s (cur s))) \<le> pool_cap s" by (simp add: pool_cap_def)
    from grows_within_push [OF grows_within_refl this] s' show ?thesis by simp
  next
    case full: True
    show ?thesis
    proof (cases "arrays s (cur s)")
      case Nil
      with full run show ?thesis by (simp add: js_evict_if_full_def ebind_def)
    next
      case (Cons oldest rest)
      obtain res1 s1 where d: "js_deactivate E oldest s = (res1, s1)" by fastforce
      have g1: "grows_within s s1" by (rule boundedD [OF bounded_js_deactivate d])
      from full Cons d have ev: "js_evict_if_full E s = (res1, s1)" by (simp add: js_evict_if_full_def)
      show ?thesis
      proof (cases res1)
        case (Inl e)
        with run ev g1 show ?thesis by (simp add: ebind_def)
      next
        case (Inr u)
        with run ev have s': "s' = js_push r s1" by (simp add: ebind_def emodify_def)
        from d have "arrays s1 (cur s1) = filter (\<lambda>it. it \<noteq> oldest) (oldest # rest)"
          by (auto simp: js_deactivate_eq js_assign_filtered_def Cons)
        then have "Suc (length (arrays s1 (cur s1))) \<le> length (arrays s (cur s))"
          using length_filter_le [of "\<lambda>it. it \<noteq> oldest" rest] by (simp add: Cons)
        then have "Suc (length (arrays s1 (cur s1))) \<le> pool_cap s" by (simp add: pool_cap_def)
        from grows_within_push [OF g1 this] s' show ?thesis by simp
      qed
    qed
  qed
qed

lemma bounded_initial_render:
  "bounded (case init of None \<Rightarrow> ereturn () | Some c \<Rightarrow> on_base (update_container E (Content c) k))"
  by (cases init) (simp_all add: bounded_ereturn bounded_on_base base_frame_update_container)

lemma js_create_instance_split:
  "js_create_instance E r init =
     ebind (ebind (js_evict_if_full E) (\<lambda>_. emodify (js_push r))) (\<lambda>_.
     ebind (on_base (create_container r)) (\<lambda>container.
     ebind (case init of None \<Rightarrow> ereturn () | Some c \<Rightarrow> on_base (update_container E (Content c) container))
       (\<lambda>_. ereturn \<lparr>inst_renderer = r, inst_container = container\<rparr>)))"
  by (simp add: js_create_instance_def ebind_assoc)

lemma bounded_js_create_instance: "bounded (js_create_instance E r init)"
  unfolding js_create_instance_split
  by (intro bounded_ebind bounded_evict_push bounded_on_base base_frame_ops bounded_initial_render
      bounded_ereturn)

lemma bounded_run_reentry: "bounded (run_reentry E op)"
  by (cases op)
    (simp_all add: js_create_channel_renderer_instance_def js_create_command_reply_renderer_instance_def
      js_render_def js_instance_deactivate_def bounded_js_deactivate bounded_js_instance_destroy
      bounded_ebind bounded_on_base base_frame_ops bounded_js_create_instance bounded_ereturn)

lemma bounded_run_reentries: "bounded (run_reentries E ops)"
  by (induction ops) (simp_all add: bounded_ereturn bounded_ebind bounded_run_reentry)

lemma bounded_js_offer: "bounded (js_offer E R r i)"
  unfolding bounded_def
proof (intro allI impI)
  fix s res s'
  assume run: "js_offer E R r i s = (res, s')"
  let ?s1 = "s\<lparr>base := (base s)\<lparr>calls := calls (base s) @ [HandleComponentInteraction r i]\<rparr>\<rparr>"
  have g1: "grows_within s ?s1" by (simp add: grows_within_def pool_cap_def)
  have "bounded (ebind (run_reentries E (R (calls (base s)) r i))
      (\<lambda>_. case E (calls (base s)) (HandleComponentInteraction r i) of
              Returns b \<Rightarrow> ereturn b | Throws \<Rightarrow> eraise (Raised (HandleComponentInteraction r i))))"
    by (intro bounded_ebind bounded_run_reentries) (simp add: bounded_ereturn bounded_eraise split: reply.split)
  from boundedD [OF this] run g1 show "grows_within s s'"
    by (simp add: js_offer_def Let_def) (blast intro: grows_within_trans)
qed

lemma js_for_of_decreases:
  assumes "k < length (arrays s a)" and "grows_within s s'"
  shows "max (length (arrays s' a)) (pool_cap s') - Suc k < max (length (arrays s a)) (pool_cap s) - k"
proof -
  from assms(2) have "length (arrays s' a) \<le> max (length (arrays s a)) (pool_cap s)"
    and "pool_cap s' \<le> pool_cap s" by (simp_all add: grows_within_def)
  with assms(1) show ?thesis by linarith
qed

termination js_for_of
  by (relation "measure (\<lambda>(E, R, i, a, k, s). max (length (arrays s a)) (pool_cap s) - k)")
    (auto intro: js_for_of_decreases boundedD [OF bounded_js_offer])

section \<open>Counting offers\<close>

text \<open>
  An offer is a call of a renderer's \<open>handleComponentInteraction\<close>.  The re-entrant
  operations append calls to the record but never an offer: only the dispatch loop
  offers.
\<close>

fun is_offer :: "('c, 'i) call \<Rightarrow> bool" where
  "is_offer (HandleComponentInteraction r i) = True"
| "is_offer _ = False"

definition base_no_offer :: "('a, 'c, 'i, 'd) act \<Rightarrow> bool" where
  "base_no_offer m = (\<forall>b r b'. m b = (r, b') \<longrightarrow>
     (\<exists>xs. calls b' = calls b @ xs \<and> filter is_offer xs = []))"

definition no_offer :: "('a, 'c, 'i, 'd) jsact \<Rightarrow> bool" where
  "no_offer m = (\<forall>s r s'. m s = (r, s') \<longrightarrow>
     (\<exists>xs. calls (base s') = calls (base s) @ xs \<and> filter is_offer xs = []))"

lemma no_offerD:
  "no_offer m \<Longrightarrow> m s = (r, s') \<Longrightarrow> \<exists>xs. calls (base s') = calls (base s) @ xs \<and> filter is_offer xs = []"
  by (simp add: no_offer_def)

lemma no_offer_ereturn: "no_offer (ereturn a)"
  by (auto simp: no_offer_def ereturn_def)

lemma no_offer_emodify: "(\<And>s. calls (base (g s)) = calls (base s)) \<Longrightarrow> no_offer (emodify g)"
  by (auto simp: no_offer_def emodify_def)

lemma no_offer_ebind:
  assumes "no_offer m" and "\<And>a. no_offer (f a)"
  shows "no_offer (ebind m f)"
  unfolding no_offer_def
proof (intro allI impI)
  fix s r s'
  assume run: "ebind m f s = (r, s')"
  obtain r1 s1 where m: "m s = (r1, s1)" by fastforce
  from no_offerD [OF assms(1) m] obtain xs where xs: "calls (base s1) = calls (base s) @ xs"
    "filter is_offer xs = []" by blast
  show "\<exists>xs. calls (base s') = calls (base s) @ xs \<and> filter is_offer xs = []"
  proof (cases r1)
    case (Inl e)
    with run m xs show ?thesis by (auto simp: ebind_def)
  next
    case (Inr a)
    with run m have "f a s1 = (r, s')" by (simp add: ebind_def)
    from no_offerD [OF assms(2) this] obtain ys where "calls (base s') = calls (base s1) @ ys"
      "filter is_offer ys = []" by blast
    with xs show ?thesis by (intro exI [of _ "xs @ ys"]) simp
  qed
qed

lemma no_offer_on_base: "base_no_offer m \<Longrightarrow> no_offer (on_base m)"
  by (auto simp: no_offer_def base_no_offer_def on_base_def split: prod.splits)

lemma base_no_offer_call_void: "\<not> is_offer c \<Longrightarrow> base_no_offer (call_void E c)"
  by (simp add: base_no_offer_def call_void_result)

lemma base_no_offer_create_container: "base_no_offer (create_container r)"
  unfolding base_no_offer_def by (intro allI impI) (drule create_container_frame, simp)

lemma base_no_offer_new_renderer: "base_no_offer (new_renderer obj)"
  by (simp add: base_no_offer_def new_renderer_def)

lemma base_no_offer_update_container: "base_no_offer (update_container E el k)"
  unfolding base_no_offer_def
proof (intro allI impI)
  fix b r b'
  assume u: "update_container E el k b = (r, b')"
  show "\<exists>xs. calls b' = calls b @ xs \<and> filter is_offer xs = []"
  proof (cases "sessions b k")
    case None
    with u show ?thesis by (simp add: update_container_dead)
  next
    case (Some x)
    with u show ?thesis by (auto simp: update_container_live Let_def split: if_splits)
  qed
qed

lemmas no_offer_intros = no_offer_ebind no_offer_ereturn no_offer_on_base base_no_offer_call_void
  base_no_offer_create_container base_no_offer_new_renderer base_no_offer_update_container

lemma no_offer_js_deactivate: "no_offer (js_deactivate E r)"
  unfolding js_deactivate_def
  by (intro no_offer_intros no_offer_emodify) (simp_all add: js_assign_filtered_def)

lemma no_offer_js_create_instance: "no_offer (js_create_instance E r init)"
proof -
  have ev: "no_offer (js_evict_if_full E)"
    unfolding no_offer_def js_evict_if_full_def
    using no_offerD [OF no_offer_js_deactivate]
    by (auto split: list.splits if_splits)
  have ini: "no_offer (case init of None \<Rightarrow> ereturn () | Some c \<Rightarrow> on_base (update_container E (Content c) k))" for k
    by (cases init) (simp_all add: no_offer_intros)
  show ?thesis
    unfolding js_create_instance_def
    by (intro no_offer_intros no_offer_emodify ev ini) (simp add: js_push_def)
qed

lemma no_offer_run_reentries: "no_offer (run_reentries E ops)"
proof (induction ops)
  case Nil
  then show ?case by (simp add: no_offer_ereturn)
next
  case (Cons op ops)
  have "no_offer (run_reentry E op)"
    by (cases op)
      (simp_all add: js_create_channel_renderer_instance_def js_create_command_reply_renderer_instance_def
        js_render_def js_instance_deactivate_def js_instance_destroy_def no_offer_js_deactivate
        no_offer_js_create_instance no_offer_intros no_offer_emodify js_assign_filtered_def)
  with Cons.IH show ?case by (simp add: no_offer_ebind)
qed

lemma js_offer_calls:
  assumes "js_offer E R r i s = (res, s')"
  shows "\<exists>xs. calls (base s') = calls (base s) @ HandleComponentInteraction r i # xs \<and> filter is_offer xs = []"
proof -
  let ?s1 = "s\<lparr>base := (base s)\<lparr>calls := calls (base s) @ [HandleComponentInteraction r i]\<rparr>\<rparr>"
  have "no_offer (ebind (run_reentries E (R (calls (base s)) r i))
      (\<lambda>_. case E (calls (base s)) (HandleComponentInteraction r i) of
              Returns b \<Rightarrow> ereturn b | Throws \<Rightarrow> eraise (Raised (HandleComponentInteraction r i))))"
    by (intro no_offer_ebind no_offer_run_reentries)
      (auto simp: no_offer_def ereturn_def eraise_def split: reply.split)
  from no_offerD [OF this] assms obtain xs where "calls (base s') = calls (base ?s1) @ xs"
    "filter is_offer xs = []" by (fastforce simp: js_offer_def Let_def)
  then show ?thesis by simp
qed

lemma js_for_of_offers:
  "js_for_of E R i a k s = (res, s') \<Longrightarrow>
   \<exists>xs. calls (base s') = calls (base s) @ xs \<and>
        length (filter is_offer xs) \<le> max (length (arrays s a)) (pool_cap s) - k"
proof (induction E R i a k s arbitrary: res s' rule: js_for_of.induct)
  case (1 E R i a k s)
  show ?case
  proof (cases "k < length (arrays s a)")
    case False
    with "1.prems" show ?thesis by (simp add: js_for_of.simps [of E R i a k s])
  next
    case True
    obtain r1 s1 where o: "js_offer E R (arrays s a ! k) i s = (r1, s1)" by fastforce
    from js_offer_calls [OF o] obtain xs where xs:
      "calls (base s1) = calls (base s) @ HandleComponentInteraction (arrays s a ! k) i # xs"
      "filter is_offer xs = []" by blast
    have lt: "k < max (length (arrays s a)) (pool_cap s)" using True by simp
    show ?thesis
    proof (cases "r1 = Inr False")
      case False
      with True o "1.prems" have "s' = s1"
        by (auto simp: js_for_of.simps [of E R i a k s] ebind_def split: sum.splits if_splits)
      with xs lt show ?thesis by (intro exI [of _ "HandleComponentInteraction (arrays s a ! k) i # xs"]) simp
    next
      case r1: True
      with True o "1.prems" have rec: "js_for_of E R i a (Suc k) s1 = (res, s')"
        by (simp add: js_for_of.simps [of E R i a k s] ebind_def)
      from "1.IH" [OF True o [unfolded r1] _ rec] obtain ys where
        ys: "calls (base s') = calls (base s1) @ ys"
        "length (filter is_offer ys) \<le> max (length (arrays s1 a)) (pool_cap s1) - Suc k" by auto
      have "max (length (arrays s1 a)) (pool_cap s1) - Suc k < max (length (arrays s a)) (pool_cap s) - k"
        by (rule js_for_of_decreases [OF True boundedD [OF bounded_js_offer o]])
      with xs ys show ?thesis
        by (intro exI [of _ "HandleComponentInteraction (arrays s a ! k) i # xs @ ys"]) simp
    qed
  qed
qed

declare js_for_of.simps [simp del]

section \<open>Which renderers the live loop reaches\<close>

text \<open>
  \<open>grows_from X s s'\<close>: from \<open>s\<close> to \<open>s'\<close> every array allocated in \<open>s\<close> only grows
  at its end (it is a prefix of its later self) and gains no renderer outside \<open>X\<close>, no
  array is freed, no renderer identity is reused, and \<open>this.renderers\<close> keeps
  referencing an allocated array.
  \<open>adds X m\<close> says this of every run of \<open>m\<close>; \<open>fresh_only m\<close> says that every
  renderer \<open>m\<close> adds to an existing array was allocated during the run.
\<close>

definition grows_from :: "rid set \<Rightarrow> ('c, 'i, 'd) jsworld \<Rightarrow> ('c, 'i, 'd) jsworld \<Rightarrow> bool" where
  "grows_from X s s' =
     (lim s \<le> lim s' \<and> next_rid (base s) \<le> next_rid (base s') \<and>
      (cur s < lim s \<longrightarrow> cur s' < lim s') \<and>
      (\<forall>b. b < lim s \<longrightarrow> prefix (arrays s b) (arrays s' b)) \<and>
      (\<forall>b. b < lim s \<longrightarrow> set (arrays s' b) \<subseteq> set (arrays s b) \<union> X))"

definition adds :: "rid set \<Rightarrow> ('a, 'c, 'i, 'd) jsact \<Rightarrow> bool" where
  "adds X m = (\<forall>s res s'. m s = (res, s') \<longrightarrow> grows_from X s s')"

definition fresh_only :: "('a, 'c, 'i, 'd) jsact \<Rightarrow> bool" where
  "fresh_only m = (\<forall>s res s'. m s = (res, s') \<longrightarrow> grows_from {x. next_rid (base s) \<le> x} s s')"

lemma grows_from_refl [simp]: "grows_from X s s"
  by (simp add: grows_from_def)

lemma grows_from_trans:
  assumes g1: "grows_from X s1 s2" and g2: "grows_from Y s2 s3"
  shows "grows_from (X \<union> Y) s1 s3"
  unfolding grows_from_def
proof (intro conjI allI impI)
  from g1 g2 show "lim s1 \<le> lim s3" and "next_rid (base s1) \<le> next_rid (base s3)"
    by (simp_all add: grows_from_def)
  show "cur s3 < lim s3" if "cur s1 < lim s1" using that g1 g2 by (simp add: grows_from_def)
  show "prefix (arrays s1 b) (arrays s3 b)" if b: "b < lim s1" for b
  proof -
    from g1 b have l: "b < lim s2" and p1: "prefix (arrays s1 b) (arrays s2 b)"
      by (simp_all add: grows_from_def)
    from g2 l have "prefix (arrays s2 b) (arrays s3 b)" by (simp add: grows_from_def)
    with p1 show ?thesis by (rule prefix_order.order_trans)
  qed
  fix b assume b: "b < lim s1"
  from g1 b have l: "b < lim s2" and a: "set (arrays s2 b) \<subseteq> set (arrays s1 b) \<union> X"
    by (simp_all add: grows_from_def)
  from g2 l have "set (arrays s3 b) \<subseteq> set (arrays s2 b) \<union> Y" by (simp add: grows_from_def)
  with a show "set (arrays s3 b) \<subseteq> set (arrays s1 b) \<union> (X \<union> Y)" by blast
qed

lemma grows_from_mono: "grows_from X s s' \<Longrightarrow> X \<subseteq> Y \<Longrightarrow> grows_from Y s s'"
  unfolding grows_from_def by blast

lemma addsD: "adds X m \<Longrightarrow> m s = (res, s') \<Longrightarrow> grows_from X s s'"
  by (simp add: adds_def)

lemma adds_ereturn: "adds X (ereturn a)"
  by (simp add: adds_def ereturn_def)

lemma adds_eraise: "adds X (eraise e)"
  by (simp add: adds_def eraise_def)

lemma adds_ebind:
  assumes "adds X m" and "\<And>a. adds X (f a)"
  shows "adds X (ebind m f)"
  unfolding adds_def
proof (intro allI impI)
  fix s res s'
  assume run: "ebind m f s = (res, s')"
  obtain r1 s1 where m: "m s = (r1, s1)" by fastforce
  have g1: "grows_from X s s1" by (rule addsD [OF assms(1) m])
  show "grows_from X s s'"
  proof (cases r1)
    case (Inl e)
    with run m g1 show ?thesis by (simp add: ebind_def)
  next
    case (Inr a)
    with run m have "f a s1 = (res, s')" by (simp add: ebind_def)
    from grows_from_trans [OF g1 addsD [OF assms(2) this]] show ?thesis by simp
  qed
qed

lemma adds_on_base: "base_frame m \<Longrightarrow> adds X (on_base m)"
  by (auto simp: adds_def base_frame_def on_base_def grows_from_def split: prod.splits)

lemma adds_assign_filtered: "adds X (emodify (js_assign_filtered r))"
  by (simp add: adds_def emodify_def grows_from_def js_assign_filtered_def)

lemma adds_push: "adds {r} (emodify (js_push r))"
  by (auto simp: adds_def emodify_def grows_from_def js_push_def)

lemma adds_js_deactivate: "adds X (js_deactivate E r)"
  unfolding js_deactivate_def by (intro adds_ebind adds_assign_filtered adds_on_base base_frame_ops)

lemma adds_js_instance_destroy: "adds X (js_instance_destroy E inst)"
  unfolding js_instance_destroy_def by (intro adds_ebind adds_assign_filtered adds_on_base base_frame_ops)

lemma adds_js_evict_if_full: "adds X (js_evict_if_full E)"
  unfolding adds_def js_evict_if_full_def
  using addsD [OF adds_js_deactivate] by (auto split: list.splits if_splits)

lemma adds_js_create_instance: "adds {r} (js_create_instance E r init)"
proof -
  have ini: "adds {r} (case init of None \<Rightarrow> ereturn () | Some c \<Rightarrow> on_base (update_container E (Content c) k))" for k
    by (cases init) (simp_all add: adds_ereturn adds_on_base base_frame_update_container)
  show ?thesis
    unfolding js_create_instance_def
    by (intro adds_ebind adds_js_evict_if_full adds_push adds_on_base base_frame_ops ini adds_ereturn)
qed

lemma fresh_onlyD:
  "fresh_only m \<Longrightarrow> m s = (res, s') \<Longrightarrow> grows_from {x. next_rid (base s) \<le> x} s s'"
  by (simp add: fresh_only_def)

lemma adds_fresh_only: "adds {} m \<Longrightarrow> fresh_only m"
  unfolding fresh_only_def by (blast intro: grows_from_mono addsD)

lemma fresh_only_ebind:
  assumes "fresh_only m" and "\<And>a. fresh_only (f a)"
  shows "fresh_only (ebind m f)"
  unfolding fresh_only_def
proof (intro allI impI)
  fix s res s'
  assume run: "ebind m f s = (res, s')"
  obtain r1 s1 where m: "m s = (r1, s1)" by fastforce
  have g1: "grows_from {x. next_rid (base s) \<le> x} s s1" by (rule fresh_onlyD [OF assms(1) m])
  then have n: "next_rid (base s) \<le> next_rid (base s1)" by (simp add: grows_from_def)
  show "grows_from {x. next_rid (base s) \<le> x} s s'"
  proof (cases r1)
    case (Inl e)
    with run m g1 show ?thesis by (simp add: ebind_def)
  next
    case (Inr a)
    with run m have "f a s1 = (res, s')" by (simp add: ebind_def)
    from grows_from_trans [OF g1 fresh_onlyD [OF assms(2) this]] n show ?thesis
      by (auto elim: grows_from_mono)
  qed
qed

text \<open>The facade allocates the renderer it registers, so what it adds is fresh.\<close>

lemma fresh_only_facade:
  "fresh_only (ebind (on_base (new_renderer obj)) (\<lambda>renderer. js_create_instance E renderer init))"
  unfolding fresh_only_def
proof (intro allI impI)
  fix s res s'
  assume run: "ebind (on_base (new_renderer obj)) (\<lambda>renderer. js_create_instance E renderer init) s = (res, s')"
  let ?n = "next_rid (base s)"
  obtain s1 where nr: "on_base (new_renderer obj) s = (Inr ?n, s1)" and l: "lim s1 = lim s" and c: "cur s1 = cur s"
    and a: "arrays s1 = arrays s" and n: "next_rid (base s1) = Suc ?n"
    by (simp add: on_base_def new_renderer_def)
  from run have "js_create_instance E ?n init s1 = (res, s')"
    by (simp add: ebind_Inr [where m = "on_base (new_renderer obj)", OF nr])
  from addsD [OF adds_js_create_instance this] have "grows_from {?n} s1 s'" .
  moreover have "grows_from {} s s1" using l c a n by (simp add: grows_from_def)
  ultimately have "grows_from ({} \<union> {?n}) s s'" by (rule grows_from_trans [rotated])
  then show "grows_from {x. ?n \<le> x} s s'" by (rule grows_from_mono) simp
qed

lemma fresh_only_run_reentry: "fresh_only (run_reentry E op)"
proof (cases op)
  case (ReSend ch init)
  show ?thesis
    unfolding ReSend run_reentry.simps js_create_channel_renderer_instance_def
    by (intro fresh_only_ebind fresh_only_facade adds_fresh_only adds_ereturn)
next
  case (ReReply ci init)
  show ?thesis
    unfolding ReReply run_reentry.simps js_create_command_reply_renderer_instance_def
    by (intro fresh_only_ebind fresh_only_facade adds_fresh_only adds_ereturn)
qed (simp_all add: adds_fresh_only js_render_def js_instance_deactivate_def adds_on_base
       base_frame_update_container adds_js_deactivate adds_js_instance_destroy)

lemma fresh_only_run_reentries: "fresh_only (run_reentries E ops)"
  by (induction ops) (simp_all add: adds_fresh_only adds_ereturn fresh_only_ebind fresh_only_run_reentry)

lemma js_offer_fresh:
  assumes "js_offer E R r i s = (res, s')"
  shows "grows_from {x. next_rid (base s) \<le> x} s s'"
proof -
  let ?s1 = "s\<lparr>base := (base s)\<lparr>calls := calls (base s) @ [HandleComponentInteraction r i]\<rparr>\<rparr>"
  have "fresh_only (ebind (run_reentries E (R (calls (base s)) r i))
      (\<lambda>_. case E (calls (base s)) (HandleComponentInteraction r i) of
              Returns b \<Rightarrow> ereturn b | Throws \<Rightarrow> eraise (Raised (HandleComponentInteraction r i))))"
    by (intro fresh_only_ebind fresh_only_run_reentries adds_fresh_only)
      (simp add: adds_ereturn adds_eraise split: reply.split)
  moreover from assms have "ebind (run_reentries E (R (calls (base s)) r i))
      (\<lambda>_. case E (calls (base s)) (HandleComponentInteraction r i) of
              Returns b \<Rightarrow> ereturn b | Throws \<Rightarrow> eraise (Raised (HandleComponentInteraction r i))) ?s1 = (res, s')"
    by (simp only: js_offer_def Let_def)
  ultimately have "grows_from {x. next_rid (base ?s1) \<le> x} ?s1 s'" by (rule fresh_onlyD)
  moreover have "grows_from {} s ?s1" by (simp add: grows_from_def)
  ultimately show ?thesis by (auto dest: grows_from_trans)
qed

lemma no_offer_not_member: "filter is_offer xs = [] \<Longrightarrow> HandleComponentInteraction r j \<notin> set xs"
  by (auto simp: filter_empty_conv)

lemma js_for_of_offered:
  "a < lim s \<Longrightarrow> js_for_of E R i a k s = (res, s') \<Longrightarrow>
   \<exists>xs. calls (base s') = calls (base s) @ xs \<and>
        (\<forall>r j. HandleComponentInteraction r j \<in> set xs \<longrightarrow>
           j = i \<and> (r \<in> set (arrays s a) \<or> next_rid (base s) \<le> r))"
proof (induction E R i a k s arbitrary: res s' rule: js_for_of.induct)
  case (1 E R i a k s)
  show ?case
  proof (cases "k < length (arrays s a)")
    case False
    with "1.prems" show ?thesis by (simp add: js_for_of.simps [of E R i a k s])
  next
    case True
    obtain r1 s1 where o: "js_offer E R (arrays s a ! k) i s = (r1, s1)" by fastforce
    from js_offer_calls [OF o] obtain xs where xs:
      "calls (base s1) = calls (base s) @ HandleComponentInteraction (arrays s a ! k) i # xs"
      "filter is_offer xs = []" by blast
    have hd: "arrays s a ! k \<in> set (arrays s a)" using True by simp
    show ?thesis
    proof (cases "r1 = Inr False")
      case False
      with True o "1.prems" have "s' = s1"
        by (auto simp: js_for_of.simps [of E R i a k s] ebind_def split: sum.splits if_splits)
      with xs hd show ?thesis
        by (intro exI [of _ "HandleComponentInteraction (arrays s a ! k) i # xs"]) (auto dest: no_offer_not_member)
    next
      case r1: True
      with True o "1.prems" have rec: "js_for_of E R i a (Suc k) s1 = (res, s')"
        by (simp add: js_for_of.simps [of E R i a k s] ebind_def)
      have g: "grows_from {x. next_rid (base s) \<le> x} s s1" by (rule js_offer_fresh [OF o])
      with "1.prems"(1) have a1: "a < lim s1" by (simp add: grows_from_def)
      from "1.IH" [OF True o [unfolded r1] _ a1 rec] obtain ys where
        ys: "calls (base s') = calls (base s1) @ ys"
        "\<forall>r j. HandleComponentInteraction r j \<in> set ys \<longrightarrow>
           j = i \<and> (r \<in> set (arrays s1 a) \<or> next_rid (base s1) \<le> r)" by auto
      from g "1.prems"(1) have sub: "set (arrays s1 a) \<subseteq> set (arrays s a) \<union> {x. next_rid (base s) \<le> x}"
        and n: "next_rid (base s) \<le> next_rid (base s1)" by (simp_all add: grows_from_def)
      have "HandleComponentInteraction r j \<in> set (HandleComponentInteraction (arrays s a ! k) i # xs @ ys) \<Longrightarrow>
          j = i \<and> (r \<in> set (arrays s a) \<or> next_rid (base s) \<le> r)" for r j
      proof -
        assume "HandleComponentInteraction r j \<in> set (HandleComponentInteraction (arrays s a ! k) i # xs @ ys)"
        then consider "r = arrays s a ! k" "j = i" | "HandleComponentInteraction r j \<in> set ys"
          using no_offer_not_member [OF xs(2)] by auto
        then show ?thesis
        proof cases
          case 1 with hd show ?thesis by simp
        next
          case 2
          with ys(2) have j: "j = i" and "r \<in> set (arrays s1 a) \<or> next_rid (base s1) \<le> r" by blast+
          then have "r \<in> set (arrays s a) \<union> {x. next_rid (base s) \<le> x}"
            using subsetD [OF sub, of r] le_trans [OF n, of r] by blast
          with j show ?thesis by simp
        qed
      qed
      with xs ys show ?thesis
        by (intro exI [of _ "HandleComponentInteraction (arrays s a ! k) i # xs @ ys"]) simp
    qed
  qed
qed

lemma js_for_of_fresh:
  "js_for_of E R i a k s = (res, s') \<Longrightarrow> grows_from {x. next_rid (base s) \<le> x} s s'"
proof (induction E R i a k s arbitrary: res s' rule: js_for_of.induct)
  case (1 E R i a k s)
  show ?case
  proof (cases "k < length (arrays s a)")
    case False
    with "1.prems" show ?thesis by (simp add: js_for_of.simps [of E R i a k s])
  next
    case True
    obtain r1 s1 where o: "js_offer E R (arrays s a ! k) i s = (r1, s1)" by fastforce
    have g: "grows_from {x. next_rid (base s) \<le> x} s s1" by (rule js_offer_fresh [OF o])
    show ?thesis
    proof (cases "r1 = Inr False")
      case False
      with True o "1.prems" have "s' = s1"
        by (auto simp: js_for_of.simps [of E R i a k s] ebind_def split: sum.splits if_splits)
      with g show ?thesis by simp
    next
      case r1: True
      with True o "1.prems" have rec: "js_for_of E R i a (Suc k) s1 = (res, s')"
        by (simp add: js_for_of.simps [of E R i a k s] ebind_def)
      from g have n: "next_rid (base s) \<le> next_rid (base s1)" by (simp add: grows_from_def)
      from grows_from_trans [OF g "1.IH" [OF True o [unfolded r1] _ rec]] n show ?thesis
        by (auto elim: grows_from_mono)
    qed
  qed
qed


section \<open>The loop iterates the array object it started with\<close>

text \<open>
  \<open>offered xs\<close>: the renderers a list of calls offers an interaction to, in order.
  The array object the loop holds only grows while the loop runs (a filter assignment
  repoints \<open>this.renderers\<close> to a new array, a push appends), and the loop reads it
  afresh at every step: the renderers it offers are, in order, a prefix of the array's
  content when it ends, and all of it from the starting index when every renderer
  declines and nothing throws.
\<close>

fun offered :: "('c, 'i) call list \<Rightarrow> rid list" where
  "offered [] = []"
| "offered (HandleComponentInteraction r j # xs) = r # offered xs"
| "offered (c # xs) = offered xs"

lemma offered_append [simp]: "offered (xs @ ys) = offered xs @ offered ys"
  by (induction xs rule: offered.induct) simp_all

lemma offered_no_offer: "filter is_offer xs = [] \<Longrightarrow> offered xs = []"
  by (induction xs rule: offered.induct) simp_all

lemma prefix_nth_eq: "prefix xs ys \<Longrightarrow> k < length xs \<Longrightarrow> ys ! k = xs ! k"
  by (auto simp: prefix_def nth_append)

lemma js_offer_answer:
  "js_offer E R r i s = (Inr b, s') \<Longrightarrow> E (calls (base s)) (HandleComponentInteraction r i) = Returns b"
  by (auto simp: js_offer_def Let_def ebind_def ereturn_def eraise_def split: prod.splits sum.splits reply.splits)

lemma js_for_of_live:
  "a < lim s \<Longrightarrow> js_for_of E R i a k s = (res, s') \<Longrightarrow>
   \<exists>xs. calls (base s') = calls (base s) @ xs \<and> prefix (arrays s a) (arrays s' a) \<and>
        prefix (offered xs) (drop k (arrays s' a)) \<and>
        ((\<forall>h r. E h (HandleComponentInteraction r i) = Returns False) \<longrightarrow> res = Inr () \<longrightarrow>
           offered xs = drop k (arrays s' a))"
proof (induction E R i a k s arbitrary: res s' rule: js_for_of.induct)
  case (1 E R i a k s)
  show ?case
  proof (cases "k < length (arrays s a)")
    case False
    with "1.prems" have "s' = s" "res = Inr ()" by (simp_all add: js_for_of.simps [of E R i a k s])
    with False show ?thesis by (intro exI [of _ "[]"]) simp
  next
    case True
    let ?x = "arrays s a ! k"
    obtain r1 s1 where o: "js_offer E R ?x i s = (r1, s1)" by fastforce
    from js_offer_calls [OF o] obtain xs where xs:
      "calls (base s1) = calls (base s) @ HandleComponentInteraction ?x i # xs" "filter is_offer xs = []" by blast
    have g: "grows_from {x. next_rid (base s) \<le> x} s s1" by (rule js_offer_fresh [OF o])
    with "1.prems"(1) have a1: "a < lim s1" and p1: "prefix (arrays s a) (arrays s1 a)"
      by (simp_all add: grows_from_def)
    have at: "drop k l = ?x # drop (Suc k) l" if "prefix (arrays s a) l" for l
    proof -
      from that True have "k < length l" using prefix_length_le [OF that] by linarith
      then have "drop k l = l ! k # drop (Suc k) l" by (simp add: Cons_nth_drop_Suc)
      with prefix_nth_eq [OF that True] show ?thesis by simp
    qed
    show ?thesis
    proof (cases "r1 = Inr False")
      case False
      with True o "1.prems"(2) have s': "s' = s1" and res: "res = (case r1 of Inl e \<Rightarrow> Inl e | Inr _ \<Rightarrow> Inr ())"
        by (auto simp: js_for_of.simps [of E R i a k s] ebind_def split: sum.splits if_splits)
      have "(\<forall>h r. E h (HandleComponentInteraction r i) = Returns False) \<longrightarrow> res \<noteq> Inr ()"
      proof (intro impI)
        assume ad: "\<forall>h r. E h (HandleComponentInteraction r i) = Returns False"
        show "res \<noteq> Inr ()"
        proof (cases r1)
          case (Inl e)
          with res show ?thesis by simp
        next
          case (Inr b)
          with js_offer_answer [of E R ?x i s b s1] o ad have "b = False" by simp
          with Inr False show ?thesis by simp
        qed
      qed
      moreover have "prefix (offered (HandleComponentInteraction ?x i # xs)) (drop k (arrays s1 a))"
        using at [OF p1] by (simp add: offered_no_offer [OF xs(2)])
      ultimately show ?thesis using xs(1) p1 s'
        by (intro exI [of _ "HandleComponentInteraction ?x i # xs"]) auto
    next
      case r1: True
      with True o "1.prems"(2) have rec: "js_for_of E R i a (Suc k) s1 = (res, s')"
        by (simp add: js_for_of.simps [of E R i a k s] ebind_def)
      from "1.IH" [OF True o [unfolded r1] _ a1 rec] obtain ys where
        ys: "calls (base s') = calls (base s1) @ ys" "prefix (arrays s1 a) (arrays s' a)"
          "prefix (offered ys) (drop (Suc k) (arrays s' a))"
          "(\<forall>h r. E h (HandleComponentInteraction r i) = Returns False) \<longrightarrow> res = Inr () \<longrightarrow>
             offered ys = drop (Suc k) (arrays s' a)" by auto
      from p1 ys(2) have p: "prefix (arrays s a) (arrays s' a)" by (rule prefix_order.order_trans)
      have off: "offered (HandleComponentInteraction ?x i # xs @ ys) = ?x # offered ys"
        by (simp add: offered_no_offer [OF xs(2)])
      show ?thesis
        using xs(1) ys p at [OF p]
        by (intro exI [of _ "HandleComponentInteraction ?x i # xs @ ys"]) (simp only: off, simp)
    qed
  qed
qed

section \<open>A run with a re-entrant handler\<close>

text \<open>
  A pool of one renderer (bound 2) whose component sends a new message when clicked.
  Every renderer declines the interaction.
\<close>

abbreviation js_one :: "(nat, nat, nat) jsworld" where
  "js_one \<equiv> \<lparr>arrays = (\<lambda>_. [])(0 := [0]), cur = 0, lim = 1, base = sample_world [0]\<rparr>"

abbreviation send_on_click :: "(nat, nat, nat) handlers" where
  "send_on_click \<equiv> \<lambda>h r i. if r = 0 then [ReSend 9 None] else []"

lemma js_for_of_step:
  assumes "k < length (arrays s a)" and "arrays s a ! k = r" and "js_offer E R r i s = (Inr False, s1)"
  shows "js_for_of E R i a k s = js_for_of E R i a (Suc k) s1"
  using assms by (simp add: js_for_of.simps [of E R i a k s] ebind_def)

lemma js_for_of_stop:
  "\<not> k < length (arrays s a) \<Longrightarrow> js_for_of E R i a k s = (Inr (), s)"
  by (simp add: js_for_of.simps [of E R i a k s])

lemma js_offer_eq:
  assumes "run_reentries E (R (calls (base s)) r i)
             (s\<lparr>base := (base s)\<lparr>calls := calls (base s) @ [HandleComponentInteraction r i]\<rparr>\<rparr>) = (Inr (), s1)"
    and "E (calls (base s)) (HandleComponentInteraction r i) = Returns b"
  shows "js_offer E R r i s = (Inr b, s1)"
  using assms by (simp add: js_offer_def Let_def ebind_def ereturn_def)

lemma run_reentries_one:
  "run_reentry E op s = (Inr (), s1) \<Longrightarrow> run_reentries E [op] s = (Inr (), s1)"
  by (simp add: ebind_def ereturn_def)

lemma js_create_instance_no_evict:
  assumes "\<not> int (length (arrays s (cur s))) > max_instances (config (base s))"
  shows "js_create_instance E r None s =
    (Inr \<lparr>inst_renderer = r, inst_container = next_cid (base s)\<rparr>,
     (js_push r s)\<lparr>base := (base s)\<lparr>sessions := (sessions (base s))(next_cid (base s) \<mapsto>
        \<lparr>sess_renderer = r, sess_content = None\<rparr>), next_cid := Suc (next_cid (base s))\<rparr>\<rparr>)"
proof -
  from assms have ev: "js_evict_if_full E s = (Inr (), s)" by (simp add: js_evict_if_full_def)
  show ?thesis
    unfolding js_create_instance_def ebind_Inr [where m = "js_evict_if_full E", OF ev]
    by (simp add: on_base_def create_container_def ebind_def ereturn_def emodify_def js_push_def)
qed

lemma js_channel_no_evict:
  assumes "\<not> int (length (arrays s (cur s))) > max_instances (config (base s))"
  shows "js_create_channel_renderer_instance E ch None s =
      (Inr \<lparr>inst_renderer = next_rid (base s), inst_container = next_cid (base s)\<rparr>,
       (js_push (next_rid (base s)) s)\<lparr>base := (base s)\<lparr>
        robjs := (robjs (base s))(next_rid (base s) \<mapsto> ChannelMessageRenderer ch),
        next_rid := Suc (next_rid (base s)),
        sessions := (sessions (base s))(next_cid (base s) \<mapsto>
          \<lparr>sess_renderer = next_rid (base s), sess_content = None\<rparr>),
        next_cid := Suc (next_cid (base s))\<rparr>\<rparr>)"
proof -
  let ?s1 = "s\<lparr>base := (base s)\<lparr>robjs := (robjs (base s))(next_rid (base s) \<mapsto> ChannelMessageRenderer ch),
               next_rid := Suc (next_rid (base s))\<rparr>\<rparr>"
  have nr: "on_base (new_renderer (ChannelMessageRenderer ch)) s = (Inr (next_rid (base s)), ?s1)"
    by (simp add: on_base_def new_renderer_def)
  have "\<not> int (length (arrays ?s1 (cur ?s1))) > max_instances (config (base ?s1))"
    using assms by simp
  note ci = js_create_instance_no_evict [OF this, of E "next_rid (base s)"]
  show ?thesis
    unfolding js_create_channel_renderer_instance_def
      ebind_Inr [where m = "on_base (new_renderer (ChannelMessageRenderer ch))", OF nr]
    by (simp add: ci js_push_def)
qed

lemma js_send_no_evict:
  assumes "\<not> int (length (arrays s (cur s))) > max_instances (config (base s))"
  shows "run_reentry E (ReSend ch None) s =
    (Inr (), (js_push (next_rid (base s)) s)\<lparr>base := (base s)\<lparr>
        robjs := (robjs (base s))(next_rid (base s) \<mapsto> ChannelMessageRenderer ch),
        next_rid := Suc (next_rid (base s)),
        sessions := (sessions (base s))(next_cid (base s) \<mapsto>
          \<lparr>sess_renderer = next_rid (base s), sess_content = None\<rparr>),
        next_cid := Suc (next_cid (base s))\<rparr>\<rparr>)"
  unfolding run_reentry.simps
    ebind_Inr [where m = "js_create_channel_renderer_instance E ch None", OF js_channel_no_evict [OF assms]]
  by (simp add: ereturn_def)

lemma send_on_click_run:
  "js_handle_component_interaction (quiet_env :: (nat, nat) env) send_on_click 5 js_one =
     (Inr (), \<lparr>arrays = (\<lambda>_. [])(0 := [0, 4]), cur = 0, lim = 1,
       base = (sample_world [0])\<lparr>robjs := [4 \<mapsto> ChannelMessageRenderer 9], next_rid := 5,
         sessions := [0 \<mapsto> \<lparr>sess_renderer = 0, sess_content = None\<rparr>, 1 \<mapsto> \<lparr>sess_renderer = 4, sess_content = None\<rparr>],
         next_cid := 2, calls := [HandleComponentInteraction 0 5, HandleComponentInteraction 4 5]\<rparr>\<rparr>)"
proof -
  let ?s0 = "js_one\<lparr>base := (base js_one)\<lparr>calls := [HandleComponentInteraction 0 5]\<rparr>\<rparr>"
  let ?s1 = "(js_push 4 ?s0)\<lparr>base := (base ?s0)\<lparr>robjs := [4 \<mapsto> ChannelMessageRenderer 9], next_rid := 5,
         sessions := [0 \<mapsto> \<lparr>sess_renderer = 0, sess_content = None\<rparr>, 1 \<mapsto> \<lparr>sess_renderer = 4, sess_content = None\<rparr>],
         next_cid := 2\<rparr>\<rparr>"
  let ?s2 = "?s1\<lparr>base := (base ?s1)\<lparr>calls := [HandleComponentInteraction 0 5, HandleComponentInteraction 4 5]\<rparr>\<rparr>"
  have "run_reentry (quiet_env :: (nat, nat) env) (ReSend 9 None) ?s0 = (Inr (), ?s1)"
    using js_send_no_evict [of ?s0 "quiet_env :: (nat, nat) env" 9] by (simp add: max_instances_def)
  then have r: "run_reentries (quiet_env :: (nat, nat) env) [ReSend 9 None] ?s0 = (Inr (), ?s1)"
    by (rule run_reentries_one)
  have o1: "js_offer (quiet_env :: (nat, nat) env) send_on_click 0 5 js_one = (Inr False, ?s1)"
    apply (rule js_offer_eq)
    subgoal using r by simp
    subgoal by (simp add: quiet_env_def)
    done
  have o2: "js_offer (quiet_env :: (nat, nat) env) send_on_click 4 5 ?s1 = (Inr False, ?s2)"
    by (intro js_offer_eq) (simp_all add: quiet_env_def ereturn_def js_push_def)
  have "js_for_of (quiet_env :: (nat, nat) env) send_on_click 5 (cur js_one) 0 js_one =
      js_for_of quiet_env send_on_click 5 (cur js_one) (Suc 0) ?s1"
    by (rule js_for_of_step [OF _ _ o1]) simp_all
  also have "\<dots> = js_for_of quiet_env send_on_click 5 (cur js_one) (Suc (Suc 0)) ?s2"
    by (rule js_for_of_step [OF _ _ o2]) (simp_all add: js_push_def)
  also have "\<dots> = (Inr (), ?s2)"
    by (rule js_for_of_stop) (simp add: js_push_def)
  finally show ?thesis
    by (simp add: js_handle_component_interaction_def js_push_def fun_upd_twist)
qed

section \<open>Properties of the live loop\<close>

text \<open>C31: Dispatch terminates even when the renderers' handlers re-enter the core (sending messages, rendering, deactivating, destroying) while the live array is iterated: it offers the interaction at most max(length of the pool, maxInstances + 1) times, because a push onto the array being iterated happens only below the capacity bound.\<close>

theorem js_dispatch_terminates:
  assumes "js_handle_component_interaction E R i s = (res, s')"
  shows "\<exists>xs. calls (base s') = calls (base s) @ xs \<and> length (filter is_offer xs) \<le> pool_cap s"
proof -
  from js_for_of_offers [of E R i "cur s" 0 s res s'] assms obtain xs where
    "calls (base s') = calls (base s) @ xs"
    "length (filter is_offer xs) \<le> max (length (arrays s (cur s))) (pool_cap s)"
    by (auto simp: js_handle_component_interaction_def)
  moreover have "max (length (arrays s (cur s))) (pool_cap s) = pool_cap s"
    by (simp add: pool_cap_def)
  ultimately show ?thesis by auto
qed

theorem js_dispatch_terminates_witness:
  "js_handle_component_interaction (quiet_env :: (nat, nat) env) send_on_click 5 js_one =
     (Inr (), \<lparr>arrays = (\<lambda>_. [])(0 := [0, 4]), cur = 0, lim = 1,
       base = (sample_world [0])\<lparr>robjs := [4 \<mapsto> ChannelMessageRenderer 9], next_rid := 5,
         sessions := [0 \<mapsto> \<lparr>sess_renderer = 0, sess_content = None\<rparr>, 1 \<mapsto> \<lparr>sess_renderer = 4, sess_content = None\<rparr>],
         next_cid := 2, calls := [HandleComponentInteraction 0 5, HandleComponentInteraction 4 5]\<rparr>\<rparr>) \<and>
   (\<exists>xs. [HandleComponentInteraction 0 5, HandleComponentInteraction (4::nat) (5::nat)] = calls (base js_one) @ xs \<and>
     length (filter is_offer xs) \<le> pool_cap js_one)"
  using js_dispatch_terminates [OF send_on_click_run] send_on_click_run by simp

text \<open>C32: Dispatch iterates the array object this.renderers referenced when it began, reading it afresh at every step.  That array only grows while dispatch runs: deactivate and destroy repoint this.renderers to a new filtered array instead of shrinking it, and createInstance pushes onto the array this.renderers references.  The renderers offered the interaction are, in order, a prefix of the array's final content, and when every renderer declines and nothing throws they are all of it: a renderer that a handler deactivated or destroyed during dispatch is still offered the interaction, and so is a renderer created by a handler and pushed onto the iterated array.\<close>

theorem js_dispatch_iterates_live_array:
  assumes "cur s < lim s" and "js_handle_component_interaction E R i s = (res, s')"
  shows "\<exists>xs. calls (base s') = calls (base s) @ xs \<and> prefix (arrays s (cur s)) (arrays s' (cur s)) \<and>
    prefix (offered xs) (arrays s' (cur s)) \<and>
    ((\<forall>h r. E h (HandleComponentInteraction r i) = Returns False) \<longrightarrow> res = Inr () \<longrightarrow>
       offered xs = arrays s' (cur s))"
  using js_for_of_live [OF assms(1) assms(2) [unfolded js_handle_component_interaction_def]] by simp

theorem js_dispatch_iterates_live_array_witness:
  "cur js_one < lim js_one \<and>
   js_handle_component_interaction (quiet_env :: (nat, nat) env) send_on_click 5 js_one =
     (Inr (), \<lparr>arrays = (\<lambda>_. [])(0 := [0, 4]), cur = 0, lim = 1,
       base = (sample_world [0])\<lparr>robjs := [4 \<mapsto> ChannelMessageRenderer 9], next_rid := 5,
         sessions := [0 \<mapsto> \<lparr>sess_renderer = 0, sess_content = None\<rparr>, 1 \<mapsto> \<lparr>sess_renderer = 4, sess_content = None\<rparr>],
         next_cid := 2, calls := [HandleComponentInteraction 0 5, HandleComponentInteraction 4 5]\<rparr>\<rparr>) \<and>
   offered [HandleComponentInteraction 0 5, HandleComponentInteraction (4::nat) (5::nat)] = [0, 4]"
proof -
  have c: "cur js_one < lim js_one" by simp
  from js_dispatch_iterates_live_array [OF c send_on_click_run] obtain xs where
    xs: "[HandleComponentInteraction 0 5, HandleComponentInteraction (4::nat) (5::nat)] = calls (base js_one) @ xs"
    and all: "(\<forall>h r. (quiet_env :: (nat, nat) env) h (HandleComponentInteraction r 5) = Returns False) \<longrightarrow>
       (Inr () :: (nat, nat) error + unit) = Inr () \<longrightarrow> offered xs = [0, 4]"
    by auto
  from all have "offered xs = [0, 4]" by (simp add: quiet_env_def)
  with xs [symmetric] c send_on_click_run show ?thesis by simp
qed

end
