(* ===== verification/JsSystem.thy ===== *)
theory JsSystem
  imports Reentrant
begin

text \<open>
  The program over the array store of theory \<open>Reentrant\<close>, as a whole: the step
  relation of theory \<open>System\<close> on array objects (\<open>js_step\<close>, \<open>js_reachable\<close>), where
  every dispatch runs handlers that may re-enter the core with any handle.  Re-entrant
  calls add to an existing array only renderers they allocate, so dispatch offers an
  interaction only to renderers of the pool it started from or created during it; and
  the running program keeps the invariant of theory \<open>System\<close> through \<open>js_abs\<close>.
\<close>

section \<open>The running program over arrays\<close>

text \<open>
  The program of theory \<open>System\<close>, run on the array store: adapters send and reply,
  callers use the handles they hold, and interactions are dispatched over the live
  array while the components' handlers re-enter the core with any handles they hold,
  the handles of instances they created themselves included.  Every reachable state
  satisfies, through \<open>js_abs\<close>, the invariant \<open>reacord_inv\<close> of the value-level program,
  and \<open>this.renderers\<close> always references an allocated array.
\<close>

type_synonym ('c, 'i, 'd) js_sys = "('c, 'i, 'd) jsworld \<times> reacord_instance list"

definition js_init :: "reacord_config \<Rightarrow> ('c, 'i, 'd) jsworld" where
  "js_init cfg = \<lparr>arrays = \<lambda>_. [], cur = 0, lim = 1, base = init_world cfg\<rparr>"

inductive js_step :: "('c, 'i) env \<Rightarrow> ('c, 'i, 'd) js_sys \<Rightarrow> ('c, 'i, 'd) js_sys \<Rightarrow> bool"
  for E :: "('c, 'i) env" where
  send: "js_create_channel_renderer_instance E ch init s = (res, s') \<Longrightarrow>
         js_step E (s, hs) (s', hs @ issued res)"
| reply: "js_create_command_reply_renderer_instance E ci init s = (res, s') \<Longrightarrow>
         js_step E (s, hs) (s', hs @ issued res)"
| render: "inst \<in> set hs \<Longrightarrow> js_render E inst c s = (res, s') \<Longrightarrow> js_step E (s, hs) (s', hs)"
| deactivate: "inst \<in> set hs \<Longrightarrow> js_instance_deactivate E inst s = (res, s') \<Longrightarrow>
         js_step E (s, hs) (s', hs)"
| destroy: "inst \<in> set hs \<Longrightarrow> js_instance_destroy E inst s = (res, s') \<Longrightarrow>
         js_step E (s, hs) (s', hs)"
| interaction: "js_handle_component_interaction E R i s = (res, s') \<Longrightarrow> js_step E (s, hs) (s', hs)"

inductive js_reachable :: "('c, 'i) env \<Rightarrow> reacord_config \<Rightarrow> ('c, 'i, 'd) js_sys \<Rightarrow> bool"
  for E :: "('c, 'i) env" and cfg :: reacord_config where
  init: "js_reachable E cfg (js_init cfg, [])"
| step: "js_reachable E cfg s \<Longrightarrow> js_step E s s' \<Longrightarrow> js_reachable E cfg s'"

definition keeps_inv :: "reacord_instance list \<Rightarrow> ('a, 'c, 'i, 'd) jsact \<Rightarrow> bool" where
  "keeps_inv hs m = (\<forall>s res s'. m s = (res, s') \<longrightarrow>
     reacord_inv (js_abs s, hs) \<longrightarrow> reacord_inv (js_abs s', hs))"

lemma refines_run: "eabs id js_abs r = A \<Longrightarrow> r = (res, s') \<Longrightarrow> A = (res, js_abs s')"
  by (simp add: map_sum.id)

lemma reacord_inv_drop_handles: "reacord_inv (w, hs @ xs) \<Longrightarrow> reacord_inv (w, hs)"
  by (simp add: reacord_inv_def)

lemma js_abs_calls: "js_abs (s\<lparr>base := (base s)\<lparr>calls := c\<rparr>\<rparr>) = (js_abs s)\<lparr>calls := c\<rparr>"
  by (simp add: js_abs_def)

lemma reacord_inv_calls: "reacord_inv (w\<lparr>calls := c\<rparr>, hs) = reacord_inv (w, hs)"
  by (simp add: reacord_inv_def owner_def)

lemma js_abs_init: "js_abs (js_init cfg) = init_world cfg"
  by (simp add: js_abs_def js_init_def init_world_def)

lemma keeps_invD:
  "keeps_inv hs m \<Longrightarrow> m s = (res, s') \<Longrightarrow> reacord_inv (js_abs s, hs) \<Longrightarrow> reacord_inv (js_abs s', hs)"
  unfolding keeps_inv_def by blast

lemma keeps_inv_ereturn: "keeps_inv hs (ereturn a)"
  by (simp add: keeps_inv_def ereturn_def)

lemma keeps_inv_eraise: "keeps_inv hs (eraise e)"
  by (simp add: keeps_inv_def eraise_def)

lemma keeps_inv_ebind:
  assumes "keeps_inv hs m" and "\<And>a. keeps_inv hs (f a)"
  shows "keeps_inv hs (ebind m f)"
  unfolding keeps_inv_def
proof (intro allI impI)
  fix s res s'
  assume run: "ebind m f s = (res, s')" and inv: "reacord_inv (js_abs s, hs)"
  obtain r1 s1 where m: "m s = (r1, s1)" by fastforce
  have inv1: "reacord_inv (js_abs s1, hs)" by (rule keeps_invD [OF assms(1) m inv])
  show "reacord_inv (js_abs s', hs)"
  proof (cases r1)
    case (Inl e)
    with run m inv1 show ?thesis by (simp add: ebind_def)
  next
    case (Inr a)
    with run m have "f a s1 = (res, s')" by (simp add: ebind_def)
    from keeps_invD [OF assms(2) this inv1] show ?thesis .
  qed
qed

text \<open>An operation keeps the invariant when the value-level operation it refines keeps it.\<close>

lemma keeps_inv_lift:
  assumes ref: "\<And>s. eabs id js_abs (m s) = M (js_abs s)"
    and keep: "\<And>w res w'. reacord_inv (w, hs) \<Longrightarrow> M w = (res, w') \<Longrightarrow> reacord_inv (w', hs)"
  shows "keeps_inv hs m"
  unfolding keeps_inv_def
proof (intro allI impI)
  fix s res s'
  assume run: "m s = (res, s')" and inv: "reacord_inv (js_abs s, hs)"
  from keep [OF inv refines_run [OF ref [of s] run]] show "reacord_inv (js_abs s', hs)" .
qed

lemma keeps_inv_js_ops:
  "keeps_inv hs (js_create_channel_renderer_instance E ch init)"
  "keeps_inv hs (js_create_command_reply_renderer_instance E ci init)"
  "keeps_inv hs (js_render E inst c)"
  "keeps_inv hs (js_instance_deactivate E inst)"
  "keeps_inv hs (js_instance_destroy E inst)"
proof -
  show "keeps_inv hs (js_create_channel_renderer_instance E ch init)"
    by (rule keeps_inv_lift [where M = "create_channel_renderer_instance E ch init"])
      (rule js_facade_refines(1), rule reacord_inv_drop_handles [OF reacord_step_inv [OF reacord_step.send]])
  show "keeps_inv hs (js_create_command_reply_renderer_instance E ci init)"
    by (rule keeps_inv_lift [where M = "create_command_reply_renderer_instance E ci init"])
      (rule js_facade_refines(2), rule reacord_inv_drop_handles [OF reacord_step_inv [OF reacord_step.reply]])
  show "keeps_inv hs (js_render E inst c)"
    by (rule keeps_inv_lift [where M = "render E inst c"]) (rule js_render_refines, rule reacord_inv_render)
  show "keeps_inv hs (js_instance_deactivate E inst)"
    by (rule keeps_inv_lift [where M = "instance_deactivate E inst"])
      (rule js_instance_deactivate_refines, rule reacord_inv_instance_deactivate)
  show "keeps_inv hs (js_instance_destroy E inst)"
    by (rule keeps_inv_lift [where M = "instance_destroy E inst"])
      (rule js_instance_destroy_refines, rule reacord_inv_instance_destroy)
qed

lemma keeps_inv_run_reentries: "keeps_inv hs (run_reentries E ops)"
proof (induction ops)
  case Nil
  then show ?case by (simp add: keeps_inv_ereturn)
next
  case (Cons op ops)
  have "keeps_inv hs (run_reentry E op)"
    by (cases op) (simp_all add: keeps_inv_js_ops keeps_inv_ebind keeps_inv_ereturn)
  with Cons.IH show ?case by (simp add: keeps_inv_ebind)
qed

lemma keeps_inv_js_offer: "keeps_inv hs (js_offer E R r i)"
  unfolding keeps_inv_def
proof (intro allI impI)
  fix s res s'
  assume run: "js_offer E R r i s = (res, s')" and inv: "reacord_inv (js_abs s, hs)"
  let ?s1 = "s\<lparr>base := (base s)\<lparr>calls := calls (base s) @ [HandleComponentInteraction r i]\<rparr>\<rparr>"
  have k: "keeps_inv hs (ebind (run_reentries E (R (calls (base s)) r i))
      (\<lambda>_. case E (calls (base s)) (HandleComponentInteraction r i) of
              Returns b \<Rightarrow> ereturn b | Throws \<Rightarrow> eraise (Raised (HandleComponentInteraction r i))))"
    by (intro keeps_inv_ebind keeps_inv_run_reentries)
      (simp add: keeps_inv_ereturn keeps_inv_eraise split: reply.split)
  from run have "ebind (run_reentries E (R (calls (base s)) r i))
      (\<lambda>_. case E (calls (base s)) (HandleComponentInteraction r i) of
              Returns b \<Rightarrow> ereturn b | Throws \<Rightarrow> eraise (Raised (HandleComponentInteraction r i))) ?s1 = (res, s')"
    by (simp only: js_offer_def Let_def)
  moreover from inv have "reacord_inv (js_abs ?s1, hs)" by (simp add: js_abs_calls reacord_inv_calls)
  ultimately show "reacord_inv (js_abs s', hs)" by (rule keeps_invD [OF k])
qed

lemma js_for_of_keeps_inv:
  "reacord_inv (js_abs s, hs) \<Longrightarrow> js_for_of E R i a k s = (res, s') \<Longrightarrow> reacord_inv (js_abs s', hs)"
proof (induction E R i a k s arbitrary: res s' rule: js_for_of.induct)
  case (1 E R i a k s)
  show ?case
  proof (cases "k < length (arrays s a)")
    case False
    with "1.prems" show ?thesis by (simp add: js_for_of.simps [of E R i a k s])
  next
    case True
    obtain r1 s1 where o: "js_offer E R (arrays s a ! k) i s = (r1, s1)" by fastforce
    have inv1: "reacord_inv (js_abs s1, hs)" by (rule keeps_invD [OF keeps_inv_js_offer o "1.prems"(1)])
    show ?thesis
    proof (cases "r1 = Inr False")
      case False
      with True o "1.prems"(2) have "s' = s1"
        by (auto simp: js_for_of.simps [of E R i a k s] ebind_def split: sum.splits if_splits)
      with inv1 show ?thesis by simp
    next
      case r1: True
      with True o "1.prems"(2) have rec: "js_for_of E R i a (Suc k) s1 = (res, s')"
        by (simp add: js_for_of.simps [of E R i a k s] ebind_def)
      from "1.IH" [OF True o [unfolded r1] _ inv1 rec] show ?thesis by simp
    qed
  qed
qed

lemma grows_from_cur: "grows_from X s s' \<Longrightarrow> cur s < lim s \<Longrightarrow> cur s' < lim s'"
  by (simp add: grows_from_def)

lemma fresh_only_js_facade:
  "fresh_only (js_create_channel_renderer_instance E ch init)"
  "fresh_only (js_create_command_reply_renderer_instance E ci init)"
  unfolding js_create_channel_renderer_instance_def js_create_command_reply_renderer_instance_def
  by (rule fresh_only_facade)+

lemma adds_js_render: "adds X (js_render E inst c)"
  by (simp add: js_render_def adds_on_base base_frame_update_container)

text \<open>Every step keeps the value-level invariant of the abstraction and the allocation of the current array.\<close>

lemma js_step_inv:
  assumes "js_step E p p'" and "reacord_inv (js_abs (fst p), snd p)" and "cur (fst p) < lim (fst p)"
  shows "reacord_inv (js_abs (fst p'), snd p') \<and> cur (fst p') < lim (fst p')"
  using assms
proof (induction rule: js_step.induct)
  case (send ch init s res s' hs)
  from refines_run [OF js_facade_refines(1) send.hyps]
  have "reacord_step E (js_abs s, hs) (js_abs s', hs @ issued res)" by (rule reacord_step.send)
  with send.prems grows_from_cur [OF fresh_onlyD [OF fresh_only_js_facade(1) send.hyps]]
  show ?case by (simp add: reacord_step_inv)
next
  case (reply ci init s res s' hs)
  from refines_run [OF js_facade_refines(2) reply.hyps]
  have "reacord_step E (js_abs s, hs) (js_abs s', hs @ issued res)" by (rule reacord_step.reply)
  with reply.prems grows_from_cur [OF fresh_onlyD [OF fresh_only_js_facade(2) reply.hyps]]
  show ?case by (simp add: reacord_step_inv)
next
  case (render inst hs c s res s')
  with keeps_invD [OF keeps_inv_js_ops(3) render.hyps(2)] grows_from_cur [OF addsD [OF adds_js_render render.hyps(2)]]
  show ?case by simp
next
  case (deactivate inst hs s res s')
  with keeps_invD [OF keeps_inv_js_ops(4) deactivate.hyps(2)]
    grows_from_cur [OF addsD [OF adds_js_deactivate deactivate.hyps(2) [unfolded js_instance_deactivate_def]]]
  show ?case by simp
next
  case (destroy inst hs s res s')
  with keeps_invD [OF keeps_inv_js_ops(5) destroy.hyps(2)]
    grows_from_cur [OF addsD [OF adds_js_instance_destroy destroy.hyps(2)]]
  show ?case by simp
next
  case (interaction R i s res s' hs)
  note run = interaction.hyps [unfolded js_handle_component_interaction_def]
  from interaction.prems js_for_of_keeps_inv [OF _ run] grows_from_cur [OF js_for_of_fresh [OF run]]
  show ?case by simp
qed

lemma js_reachable_inv_pair:
  "js_reachable E cfg p \<Longrightarrow> reacord_inv (js_abs (fst p), snd p) \<and> cur (fst p) < lim (fst p)"
proof (induction rule: js_reachable.induct)
  case init
  have "reacord_inv (js_abs (js_init cfg), [])" by (simp only: js_abs_init reacord_inv_init)
  then show ?case by (simp add: js_init_def)
next
  case (step p p')
  with js_step_inv [OF step.hyps(2)] show ?case by blast
qed

section \<open>Properties of the program over arrays\<close>

text \<open>C33: Whatever the handlers do, dispatch offers the interaction only to renderers that were in the pool when it began or that were created while it ran: a renderer destroyed, deactivated or evicted before the interaction arrived is never offered it, and the handlers' own calls offer nothing.\<close>

theorem js_dispatch_offers_pool_or_new:
  assumes "cur s < lim s" and "js_handle_component_interaction E R i s = (res, s')"
  shows "\<exists>xs. calls (base s') = calls (base s) @ xs \<and>
    (\<forall>r j. HandleComponentInteraction r j \<in> set xs \<longrightarrow>
       j = i \<and> (r \<in> set (arrays s (cur s)) \<or> next_rid (base s) \<le> r))"
  using assms(2) unfolding js_handle_component_interaction_def by (rule js_for_of_offered [OF assms(1)])

theorem js_dispatch_offers_pool_or_new_witness:
  "cur js_one < lim js_one \<and>
   js_handle_component_interaction (quiet_env :: (nat, nat) env) send_on_click 5 js_one =
     (Inr (), \<lparr>arrays = (\<lambda>_. [])(0 := [0, 4]), cur = 0, lim = 1,
       base = (sample_world [0])\<lparr>robjs := [4 \<mapsto> ChannelMessageRenderer 9], next_rid := 5,
         sessions := [0 \<mapsto> \<lparr>sess_renderer = 0, sess_content = None\<rparr>, 1 \<mapsto> \<lparr>sess_renderer = 4, sess_content = None\<rparr>],
         next_cid := 2, calls := [HandleComponentInteraction 0 5, HandleComponentInteraction 4 5]\<rparr>\<rparr>) \<and>
   ((4::nat) \<in> set (arrays js_one (cur js_one)) \<or> next_rid (base js_one) \<le> 4)"
proof -
  have c: "cur js_one < lim js_one" by simp
  from js_dispatch_offers_pool_or_new [OF c send_on_click_run] obtain xs where
    xs: "[HandleComponentInteraction 0 5, HandleComponentInteraction (4::nat) (5::nat)] = calls (base js_one) @ xs"
    and all: "\<forall>r j. HandleComponentInteraction r j \<in> set xs \<longrightarrow>
       j = 5 \<and> (r \<in> set (arrays js_one (cur js_one)) \<or> next_rid (base js_one) \<le> r)"
    by auto
  from xs [symmetric] have "HandleComponentInteraction 4 5 \<in> set xs" by simp
  with all have "(4::nat) \<in> set (arrays js_one (cur js_one)) \<or> next_rid (base js_one) \<le> 4" by blast
  with c send_on_click_run show ?thesis by simp
qed

text \<open>C34: The program run over array objects keeps the invariant of the value-level program: in every state reachable by sends, replies, renders, deactivations, destructions and interactions dispatched over the live array (with handlers that re-enter the core through any instance handle, including the handles of instances they created), the pool this.renderers references has no duplicates, holds only allocated renderers and at most max(maxInstances + 1, 0) of them, the containers are exactly those allocated, every held handle is bound to its own container owned by its renderer, and this.renderers references an allocated array.\<close>

theorem js_reachable_invariant:
  "js_reachable E cfg (s, hs) \<Longrightarrow> reacord_inv (js_abs s, hs) \<and> cur s < lim s"
  using js_reachable_inv_pair [of E cfg "(s, hs)"] by simp

theorem js_reachable_invariant_witness:
  "js_reachable (quiet_env :: (nat, nat) env) \<lparr>maxInstances = Some 2\<rparr>
     ((js_push 0 (js_init \<lparr>maxInstances = Some 2\<rparr>))\<lparr>base := (init_world \<lparr>maxInstances = Some 2\<rparr>)\<lparr>
        robjs := [0 \<mapsto> ChannelMessageRenderer (9::nat)], next_rid := 1,
        sessions := [0 \<mapsto> \<lparr>sess_renderer = 0, sess_content = None\<rparr>], next_cid := 1\<rparr>\<rparr>,
      [\<lparr>inst_renderer = 0, inst_container = 0\<rparr>]) \<and>
   reacord_inv (js_abs ((js_push 0 (js_init \<lparr>maxInstances = Some 2\<rparr>))\<lparr>base := (init_world \<lparr>maxInstances = Some 2\<rparr>)\<lparr>
        robjs := [0 \<mapsto> ChannelMessageRenderer (9::nat)], next_rid := 1,
        sessions := [0 \<mapsto> \<lparr>sess_renderer = 0, sess_content = None\<rparr>], next_cid := 1\<rparr>\<rparr> :: (nat, nat, nat) jsworld),
      [\<lparr>inst_renderer = 0, inst_container = 0\<rparr>])"
proof -
  let ?c = "\<lparr>maxInstances = Some 2\<rparr>"
  let ?S = "(js_push 0 (js_init ?c))\<lparr>base := (init_world ?c)\<lparr>
        robjs := [0 \<mapsto> ChannelMessageRenderer (9::nat)], next_rid := 1,
        sessions := [0 \<mapsto> \<lparr>sess_renderer = 0, sess_content = None\<rparr>], next_cid := 1\<rparr>\<rparr> :: (nat, nat, nat) jsworld"
  have "\<not> int (length (arrays (js_init ?c) (cur (js_init ?c)))) > max_instances (config (base (js_init ?c)))"
    by (simp add: js_init_def init_world_def max_instances_def)
  from js_channel_no_evict [OF this, of "quiet_env :: (nat, nat) env" 9]
  have "js_create_channel_renderer_instance (quiet_env :: (nat, nat) env) 9 None (js_init ?c) =
      (Inr \<lparr>inst_renderer = 0, inst_container = 0\<rparr>, ?S)"
    by (simp add: js_init_def init_world_def)
  from js_reachable.step [OF js_reachable.init js_step.send [OF this]]
  have r: "js_reachable (quiet_env :: (nat, nat) env) ?c (?S, [\<lparr>inst_renderer = 0, inst_container = 0\<rparr>])" by simp
  from r js_reachable_invariant [OF r] show ?thesis by simp
qed

end
