(* ===== verification/Spec2Isabelle.thy ===== *)
theory Spec2Isabelle
  imports JsSystem
begin

text \<open>
  \<^bold>\<open>Reacord core: a verified model of the instance and session manager.\<close>

  \<^emph>\<open>The program.\<close>  Reacord keeps chat messages (the Discord messages of its adapters)
  in sync with a declarative React tree.  The core, class \<open>Reacord\<close>, exists in two
  near-identical variants, both modelled: \<open>src/library/core/reacord.ts\<close> and
  \<open>src/packages/reacord/library/core/reacord.tsx\<close>.  It owns an ordered pool
  \<open>renderers\<close> of live renderers, bounded by \<open>config.maxInstances\<close> (default 50):
  \<open>createInstance\<close> evicts the oldest renderer when the pool is over the bound,
  appends the new renderer, creates a reconciler container bound to it and applies the
  initial content; it returns an instance handle whose \<open>render\<close>,
  \<open>deactivate\<close> and \<open>destroy\<close> act on that renderer and container.
  \<open>handleComponentInteraction\<close> offers an inbound interaction to the pool's renderers in
  order until one claims it.  Concrete renderers, the React reconciler and the adapters
  that call the facade are outside \<open>src/\<close>.

  \<^emph>\<open>The model.\<close>  A JavaScript method that mutates \<open>this\<close> and may throw is a function
  from a world to a result (\<open>Inl\<close> the thrown error) and the world after the call, with
  the mutations done before a throw kept (theory \<open>Prelude\<close>: \<open>ebind\<close>, \<open>emodify\<close>).
  The world (theory \<open>Renderer\<close>, record \<open>world\<close>) holds the two fields of
  \<open>Reacord\<close> (\<open>renderers\<close>, \<open>config\<close>), the heap of renderer objects, the
  reconciler's containers (\<open>sessions\<close>) and the list of calls the core has made to
  renderers.  Renderers are external: an environment \<open>E\<close> answers each call from the
  history of calls, so every theorem holds for every renderer behaviour, stateful ones
  included, unless it names an environment.  Objects are compared by identity, so
  renderers and containers are numbers allocated fresh.

  \<^emph>\<open>Theories.\<close>
  \<^item> \<open>Prelude\<close>: identities, the exception-state combinators, list facts on removal
    by identity (\<open>filter (\<lambda>it. it \<noteq> x)\<close>, the source's \<open>filter(it => it !== r)\<close>).
  \<^item> \<open>Renderer\<close>: the renderer contract (spec 4.1) as the \<open>call\<close> datatype and the
    environment, \<open>ReacordConfig\<close>, \<open>ReacordInstance\<close>, the world, \<open>call_renderer\<close>.
  \<^item> \<open>Reconciler\<close>: \<open>reconciler.createContainer\<close> and \<open>updateContainer\<close>
    (spec 4.2, modelled from the spec: the reconciler is not in \<open>src/\<close>).
  \<^item> \<open>Pool\<close>: \<open>maxInstances\<close>, \<open>deactivate\<close>, the capacity check, \<open>createInstance\<close>
    and the instance's \<open>render\<close>/\<open>deactivate\<close>/\<open>destroy\<close> (reacord.ts lines
    48-102); the abstract registration \<open>pool_register\<close>; every branch of
    \<open>createInstance\<close> including its three error paths.
  \<^item> \<open>Dispatch\<close>: \<open>handleComponentInteraction\<close> (lines 42-46) as structural recursion
    over the pool snapshot, with the reference \<open>take_through\<close>.
  \<^item> \<open>Facade\<close>: \<open>createChannelRendererInstance\<close>, \<open>createCommandReplyRendererInstance\<close>
    (lines 52-70): allocation of a fresh renderer, then \<open>createInstance\<close>; the
    effect of each constructor on a pool below its bound.
  \<^item> \<open>System\<close>: the running program as an inductive step relation over the world and the
    handles returned so far (\<open>reacord_step\<close>), reachable states, the invariant
    \<open>reacord_inv\<close> and its preservation by every step (rule induction).
  \<^item> \<open>Packages\<close>: the packages variant (reacord.tsx lines 24-78) method by method,
    \<open>render\<close> wrapping the content in \<open>InstanceProvider\<close> of the instance itself;
    the abstraction \<open>strip_world\<close> that erases the provider; per-operation
    refinement lemmas built from the Prelude's \<open>eabs\<close> rules; the step relation
    \<open>pkg_step\<close> (adapters' \<open>send\<close>/\<open>reply\<close>/\<open>ephemeralReply\<close> allocate some
    renderer object and call \<open>createInstance\<close>) and its simulation by
    \<open>reacord_step\<close>.
  \<^item> \<open>Runs\<close>: sequences of operations.  \<open>run_sends\<close> is a caller sending one
    message per channel; a full pool turns over in FIFO order along it.  Two consecutive
    renders show the diff base the bridge keeps.  \<open>heap_ok\<close> (allocated identities,
    containers owned by allocated renderers, at most one container per renderer) holds
    in every reachable state, through \<open>alloc_step\<close>, the heap effect of one step.
  \<^item> \<open>Reentrant\<close>: the same code one level lower, where \<open>this.renderers\<close> is a
    reference into a store of JavaScript array objects (record \<open>jsworld\<close>, after
    Imperative_HOL's heap of arrays): \<open>push\<close> (line 77) mutates the referenced
    array, and the two \<open>filter\<close> assignments (lines 93 and 100) allocate a new array
    and repoint the field.  The for-of loop of \<open>handleComponentInteraction\<close> is
    \<open>js_for_of\<close>, an index-based loop over the array object it started with, as the
    JavaScript array iterator reads \<open>length\<close> and the element afresh on every step.
    A renderer's \<open>handleComponentInteraction\<close> may run component handlers that call
    back into the core before it answers; the calls they make (\<open>reentry\<close>: send, reply,
    render, deactivate, destroy) come from an oracle \<open>R\<close> over the call history, and
    every theorem quantifies over it.  \<open>grows_from\<close>, \<open>adds\<close> and \<open>fresh_only\<close>
    say how a computation may change the arrays allocated before it: each only grows at
    its end, and only by renderers the computation allocates.
  \<^item> \<open>JsSystem\<close>: the program over the array store as a whole.  \<open>js_step\<close>/\<open>js_reachable\<close> are the step relation of \<open>System\<close> on array
    objects, where a dispatch runs handlers that re-enter the core with any handle;
    \<open>keeps_inv\<close> lifts the value-level invariant through \<open>js_abs\<close>.
  \<^item> this theory: the abstract pool machine \<open>pool_spec\<close> and the properties that span
    components.

  \<^emph>\<open>What is proved.\<close>  The pool never holds more than \<open>maxInstances + 1\<close> renderers
  (and none when the bound is negative), and that bound is reached, so the spec's
  "at most N before the next registration" does not hold; every step of the program
  refines the abstract FIFO pool (register with eviction of the oldest, remove one,
  stutter); eviction is FIFO and calls \<open>deactivate()\<close>, never \<open>destroy()\<close>;
  dispatch offers an interaction in pool order and stops at the first claimer, for any
  renderer behaviour, and equals the takeWhile reference for fixed answers; every handle
  is bound to its own container, which belongs to its renderer; the
  spec's scenario (bound 2, four registrations) runs as the spec says.  The error paths
  are values: a throwing eviction loses the oldest renderer and registers nothing, a
  throwing initial render leaves a registered renderer that no handle reaches (a
  reachable leak), a negative bound makes \<open>createInstance\<close> throw a \<open>TypeError\<close>.
  Calling \<open>destroy\<close> or \<open>deactivate\<close> twice calls the renderer twice, and
  \<open>render\<close> after \<open>destroy\<close> still sends a diff to the destroyed renderer, against the
  spec's idempotence and "no operation after destroy".
  Along runs: when the pool is over its bound, as many sends as it holds renderers
  deactivate all of them, oldest first; a render's diff starts from the content the
  previous render applied; and no two handles share a renderer (the spec's "exactly one Instance per Renderer").
  For the packages variant: every operation and every step, against a renderer that
  does not see the provider (\<open>lift_env E\<close>: a context provider adds no host element,
  so the renderer receives the same operations), is the library's once the provider is
  erased, so the library's invariant holds in its reachable states; and every render,
  the initial one included, wraps the content in a provider of the handle it was called
  on and goes to that handle's own renderer.
  Over the array store (each operation there is related to its value-level counterpart
  by lemmas through \<open>js_abs\<close>, which carry the invariant across): dispatch terminates
  whatever the handlers do, offering the interaction at most
  \<open>max (length pool) (maxInstances + 1)\<close> times; it iterates the array object it
  started with, which only grows while it runs, so the renderers it offers are a prefix
  of that array's final content, and all of it when every renderer declines: a renderer
  a handler deactivates or destroys during dispatch is still offered the interaction, and
  a renderer a handler pushes onto the iterated array is offered it too; and
  whatever the handlers do, only renderers of the starting pool or renderers created
  during dispatch are offered it (\<open>grows_from\<close>: re-entrant calls add only freshly
  allocated renderers to an existing array); every state the program reaches on the
  array store satisfies \<open>reacord_inv\<close> through \<open>js_abs\<close>, with \<open>this.renderers\<close>
  referencing an allocated array, so re-entry during dispatch never breaks the pool's
  bound, its distinctness or the binding of handles to containers.

  \<^emph>\<open>Bounds and fuel.\<close>  No fuel is needed.  Over a snapshot the \<open>for ... of\<close> of
  \<open>handleComponentInteraction\<close> is a structural recursion over a finite list.  Over the
  live array, which handlers may grow, \<open>js_for_of\<close> is a \<open>function\<close> whose
  termination proof uses the measure \<open>max (length a) (pool_cap s) - k\<close>, where
  \<open>pool_cap s\<close> is the larger of the pool's length and \<open>maxInstances + 1\<close>: every re-entrant call either leaves the
  iterated array alone, or pushes onto it only while it is shorter than \<open>cap\<close>
  (\<open>bounded\<close>), so the loop always terminates.
  \<open>maxInstances\<close> is an unbounded \<open>int\<close> (a JavaScript number); the witnesses use
  bound 2 and pools of at most four renderers, enough to show the eviction and the
  off-by-one.

  \<^emph>\<open>Not modelled.\<close>  Non-integer and NaN values of \<open>maxInstances\<close> (a fraction
  behaves as its floor; NaN disables eviction; with \<open>Infinity\<close> a handler that sends
  on every interaction makes dispatch run forever, which the integer model excludes);
  the diff computed by React (a diff is named by its old and new element); the
  abstract \<open>send\<close>/\<open>reply\<close>/\<open>ephemeralReply\<close> and the concrete renderers and
  adapters, which are not in \<open>src/\<close>.  Components that read the instance from
  the provider's context and call its closures from inside a render are not modelled
  (re-entry is modelled during dispatch only, in \<open>Reentrant\<close> and \<open>JsSystem\<close>); the packages results hold for renderers whose answers
  do not depend on the provider wrapper.
\<close>

section \<open>The abstract pool machine\<close>

text \<open>
  What the pool promises as a state machine over the list of renderers: register a renderer
  not yet in it (spec 4.4, with the eviction check before the append), remove one, or leave it.
\<close>

inductive pool_spec :: "int \<Rightarrow> rid list \<Rightarrow> rid list \<Rightarrow> bool" for m :: int where
  register: "r \<notin> set rs \<Longrightarrow> pool_spec m rs (pool_register m rs r)"
| remove: "pool_spec m rs (remove1 r rs)"
| stutter: "pool_spec m rs rs"

section \<open>Helpers and concrete runs\<close>

lemma create_fresh_pool_spec:
  assumes inv: "reacord_inv (w, hs)" and cf: "config w = cfg"
    and ci: "create_instance E (next_rid w) init (w\<lparr>robjs := X, next_rid := Suc (next_rid w)\<rparr>) = (res, w')"
  shows "pool_spec (max_instances cfg) (renderers w) (renderers w')"
proof -
  let ?w0 = "w\<lparr>robjs := X, next_rid := Suc (next_rid w)\<rparr>" and ?rs = "renderers w"
  from inv have d: "distinct ?rs" and lt: "\<forall>r\<in>set ?rs. r < next_rid w"
    by (simp_all add: reacord_inv_def)
  define w0 where "w0 = ?w0"
  have w0s: "renderers w0 = ?rs" "config w0 = cfg" "calls w0 = calls w"
    by (simp_all add: w0_def cf)
  have d0: "distinct (renderers w0)" using d by (simp add: w0s)
  have rw: "renderers w' = (if int (length ?rs) > max_instances cfg \<and>
        (?rs = [] \<or> E (calls w) (Deactivate (hd ?rs)) = Throws)
     then tl ?rs else pool_register (max_instances cfg) ?rs (next_rid w))"
    using create_instance_renderers [OF d0, of E "next_rid w" init] ci [folded w0_def]
    by (simp only: w0s snd_conv)
  have fresh: "next_rid w \<notin> set ?rs" using lt by auto
  have "tl ?rs = remove1 (hd ?rs) ?rs" by (cases ?rs) auto
  with rw fresh show ?thesis
    by (auto intro: pool_spec.intros split: if_splits)
qed

lemma reachable_send:
  "reachable E cfg (w, hs) \<Longrightarrow>
   reachable E cfg (snd (create_channel_renderer_instance E ch init w),
                    hs @ issued (fst (create_channel_renderer_instance E ch init w)))"
  by (rule reachable.step, assumption, rule reacord_step.send) simp

abbreviation bound2 :: reacord_config where
  "bound2 \<equiv> \<lparr>maxInstances = Some 2\<rparr>"

abbreviation chan_session :: "rid \<Rightarrow> 'c session" where
  "chan_session r \<equiv> \<lparr>sess_renderer = r, sess_content = None\<rparr>"

abbreviation one_channel :: "'d \<Rightarrow> ('c, 'i, 'd) world" where
  "one_channel ch \<equiv> \<lparr>renderers = [0], config = bound2, robjs = [0 \<mapsto> ChannelMessageRenderer ch],
     next_rid = 1, sessions = [0 \<mapsto> chan_session 0], next_cid = 1, calls = []\<rparr>"

abbreviation two_channels :: "'d \<Rightarrow> ('c, 'i, 'd) world" where
  "two_channels ch \<equiv> \<lparr>renderers = [0, 1], config = bound2,
     robjs = [0 \<mapsto> ChannelMessageRenderer ch, 1 \<mapsto> ChannelMessageRenderer ch],
     next_rid = 2, sessions = [0 \<mapsto> chan_session 0, 1 \<mapsto> chan_session 1], next_cid = 2, calls = []\<rparr>"

abbreviation three_channels :: "'d \<Rightarrow> ('c, 'i, 'd) world" where
  "three_channels ch \<equiv> \<lparr>renderers = [0, 1, 2], config = bound2,
     robjs = [0 \<mapsto> ChannelMessageRenderer ch, 1 \<mapsto> ChannelMessageRenderer ch, 2 \<mapsto> ChannelMessageRenderer ch],
     next_rid = 3, sessions = [0 \<mapsto> chan_session 0, 1 \<mapsto> chan_session 1, 2 \<mapsto> chan_session 2],
     next_cid = 3, calls = []\<rparr>"

abbreviation handle :: "nat \<Rightarrow> reacord_instance" where
  "handle n \<equiv> \<lparr>inst_renderer = n, inst_container = n\<rparr>"

lemma sends_from_empty_bound2:
  fixes E :: "('c, 'i) env" and ch :: 'd
  shows "create_channel_renderer_instance E ch None (init_world bound2) = (Inr (handle 0), one_channel ch)"
    and "create_channel_renderer_instance E ch None (one_channel ch) = (Inr (handle 1), two_channels ch)"
    and "create_channel_renderer_instance E ch None (two_channels ch) = (Inr (handle 2), three_channels ch)"
  by (simp_all add: create_renderer_instance_eq init_world_def create_instance_after_check
      evict_if_full_not_full max_instances_def)

lemma reachable_sends_bound2:
  fixes E :: "('c, 'i) env" and ch :: 'd
  shows "reachable E bound2 (one_channel ch, [handle 0])"
    and "reachable E bound2 (two_channels ch, [handle 0, handle 1])"
    and "reachable E bound2 (three_channels ch, [handle 0, handle 1, handle 2])"
proof -
  show r1: "reachable E bound2 (one_channel ch, [handle 0])"
    using reachable_send [OF reachable.init, of E bound2 ch None]
    by (simp only: sends_from_empty_bound2 fst_conv snd_conv issued_simps append.simps)
  show r2: "reachable E bound2 (two_channels ch, [handle 0, handle 1])"
    using reachable_send [OF r1, of ch None]
    by (simp only: sends_from_empty_bound2 fst_conv snd_conv issued_simps append.simps)
  show "reachable E bound2 (three_channels ch, [handle 0, handle 1, handle 2])"
    using reachable_send [OF r2, of ch None]
    by (simp only: sends_from_empty_bound2 fst_conv snd_conv issued_simps append.simps)
qed

section \<open>Properties spanning the components\<close>

text \<open>C1: In every reachable state the pool holds at most maxInstances + 1 renderers (and none when maxInstances is negative): the eviction check runs before the append.\<close>

theorem reachable_pool_bound:
  "reachable E cfg (w, hs) \<Longrightarrow> int (length (renderers w)) \<le> max (max_instances cfg + 1) 0"
  using reachable_inv [of E cfg "(w, hs)"] reachable_config [of E cfg "(w, hs)"]
  by (simp add: reacord_inv_def)

theorem reachable_pool_bound_witness:
  "reachable (quiet_env :: (nat, nat) env) bound2 (three_channels (0::nat), [handle 0, handle 1, handle 2]) \<and>
   int (length (renderers (three_channels (0::nat) :: (nat, nat, nat) world))) \<le> max (max_instances bound2 + 1) 0"
  using reachable_sends_bound2(3) [of quiet_env 0]
    reachable_pool_bound [OF reachable_sends_bound2(3) [of quiet_env 0]]
  by (simp add: max_instances_def)

text \<open>C4: Every step of the running program (send, reply, render, deactivate, destroy, interaction) changes the pool as one step of the abstract FIFO pool: registration of a fresh renderer with eviction of the oldest when over the bound, removal of one renderer, or no change.\<close>

theorem pool_simulation:
  assumes "reachable E cfg (w, hs)" and "reacord_step E (w, hs) (w', hs')"
  shows "pool_spec (max_instances cfg) (renderers w) (renderers w')"
proof -
  have inv: "reacord_inv (w, hs)" using assms(1) by (rule reachable_inv)
  then have d: "distinct (renderers w)" by (simp add: reacord_inv_def)
  have cf: "config w = cfg" using reachable_config [OF assms(1)] by simp
  from assms(2) show ?thesis
  proof (cases rule: reacord_step.cases)
    case (send ch init res)
    then show ?thesis
      using create_fresh_pool_spec [OF inv cf] by (simp add: create_renderer_instance_eq)
  next
    case (reply ci init res)
    then show ?thesis
      using create_fresh_pool_spec [OF inv cf] by (simp add: create_renderer_instance_eq)
  next
    case (render inst c res)
    then have "renderers w' = renderers w"
      using update_container_frame by (fastforce simp: render_def)
    then show ?thesis by (simp add: pool_spec.stutter)
  next
    case (deactivate inst res)
    then have "renderers w' = remove1 (inst_renderer inst) (renderers w)"
      using d by (auto simp: instance_deactivate_def deactivate_eq filter_neq_remove1)
    then show ?thesis by (simp add: pool_spec.remove)
  next
    case (destroy inst res)
    then have "renderers w' = remove1 (inst_renderer inst) (renderers w)"
      using d by (auto simp: instance_destroy_eq filter_neq_remove1)
    then show ?thesis by (simp add: pool_spec.remove)
  next
    case (interaction i res)
    from handle_component_interaction_offers_pool [OF interaction(2)]
    have "w' = w\<lparr>calls := calls w'\<rparr>" by blast
    then have "renderers w' = renderers (w\<lparr>calls := calls w'\<rparr>)" by (rule arg_cong)
    then show ?thesis by (simp add: pool_spec.stutter)
  qed
qed

theorem pool_simulation_witness:
  "reachable (quiet_env :: (nat, nat) env) bound2 (two_channels (0::nat), [handle 0, handle 1]) \<and>
   reacord_step (quiet_env :: (nat, nat) env) (two_channels (0::nat), [handle 0, handle 1])
     (three_channels 0, [handle 0, handle 1, handle 2]) \<and>
   pool_spec 2 [0, 1] [0, 1, 2]"
proof -
  have r: "reachable (quiet_env :: (nat, nat) env) bound2 (two_channels (0::nat), [handle 0, handle 1])"
    by (rule reachable_sends_bound2(2))
  have s: "reacord_step (quiet_env :: (nat, nat) env) (two_channels (0::nat), [handle 0, handle 1])
     (three_channels 0, [handle 0, handle 1, handle 2])"
    using reacord_step.send [OF sends_from_empty_bound2(3), where hs = "[handle 0, handle 1]"] by simp
  from r s pool_simulation [OF r s] show ?thesis
    by (simp add: max_instances_def)
qed

text \<open>C12: In every reachable state, each instance handle the program has returned is bound to a container that belongs to the handle's renderer.\<close>

theorem reachable_handle_binding:
  assumes "reachable E cfg (w, hs)" and "inst \<in> set hs"
  shows "owner w (inst_container inst) = Some (inst_renderer inst)"
  using reachable_inv [OF assms(1)] assms(2) by (simp add: reacord_inv_def)

theorem reachable_handle_binding_witness:
  "reachable (quiet_env :: (nat, nat) env) bound2 (two_channels (0::nat), [handle 0, handle 1]) \<and>
   handle 1 \<in> set [handle 0, handle 1] \<and>
   owner (two_channels (0::nat) :: (nat, nat, nat) world) 1 = Some 1"
  using reachable_sends_bound2(2) [of "quiet_env :: (nat, nat) env" "0::nat"]
    reachable_handle_binding [OF reachable_sends_bound2(2) [of "quiet_env :: (nat, nat) env" "0::nat"], of "handle 1"]
  by simp

text \<open>C13: In every reachable state, two handles the program has returned never share a container (session).\<close>

theorem reachable_handles_own_sessions:
  assumes "reachable E cfg (w, hs)" and "i1 \<in> set hs" and "i2 \<in> set hs"
    and "inst_container i1 = inst_container i2"
  shows "i1 = i2"
proof -
  from reachable_inv [OF assms(1)] have "distinct (map inst_container hs)"
    by (simp add: reacord_inv_def)
  then have "inj_on inst_container (set hs)" by (simp add: distinct_map)
  from this assms(4) assms(2) assms(3) show ?thesis by (rule inj_onD)
qed

theorem reachable_handles_own_sessions_witness:
  "reachable (quiet_env :: (nat, nat) env) bound2 (two_channels (0::nat), [handle 0, handle 1]) \<and>
   handle 1 \<in> set [handle 0, handle 1] \<and> inst_container (handle 1) = inst_container (handle 1) \<and>
   handle 1 = handle 1"
  using reachable_handles_own_sessions [OF reachable_sends_bound2(2) [of "quiet_env :: (nat, nat) env" "0::nat"],
      of "handle 1" "handle 1"]
    reachable_sends_bound2(2) [of "quiet_env :: (nat, nat) env" "0::nat"]
  by simp

text \<open>C14: The spec's scenario: with maxInstances = 2 and renderers that do not throw, three registrations give the pool [R1, R2, R3] with no eviction, and the fourth evicts R1 (deactivate) and gives [R2, R3, R4].\<close>

theorem spec_scenario_max2:
  assumes "\<And>h c. E h c \<noteq> Throws"
  shows "let w1 = snd (create_channel_renderer_instance E ch None (init_world bound2));
             w2 = snd (create_channel_renderer_instance E ch None w1);
             w3 = snd (create_channel_renderer_instance E ch None w2);
             w4 = snd (create_channel_renderer_instance E ch None w3)
         in renderers w3 = [0, 1, 2] \<and> calls w3 = [] \<and>
            renderers w4 = [1, 2, 3] \<and> calls w4 = [Deactivate 0]"
proof -
  have "create_channel_renderer_instance E ch None (three_channels ch) =
     (Inr (handle 3), \<lparr>renderers = [1, 2, 3], config = bound2,
       robjs = [0 \<mapsto> ChannelMessageRenderer ch, 1 \<mapsto> ChannelMessageRenderer ch,
                2 \<mapsto> ChannelMessageRenderer ch, 3 \<mapsto> ChannelMessageRenderer ch],
       next_rid = 4,
       sessions = [0 \<mapsto> chan_session 0, 1 \<mapsto> chan_session 1, 2 \<mapsto> chan_session 2, 3 \<mapsto> chan_session 3],
       next_cid = 4, calls = [Deactivate 0]\<rparr>)"
    using assms
    by (simp add: create_renderer_instance_eq create_instance_after_check
        evict_if_full_evicts max_instances_def)
  then show ?thesis
    unfolding Let_def sends_from_empty_bound2 snd_conv by simp
qed

theorem spec_scenario_max2_witness:
  "(\<forall>h c. (quiet_env :: (nat, nat) env) h c \<noteq> Throws) \<and>
   (let w1 = snd (create_channel_renderer_instance (quiet_env :: (nat, nat) env) (0::nat) None (init_world bound2));
        w2 = snd (create_channel_renderer_instance (quiet_env :: (nat, nat) env) 0 None w1);
        w3 = snd (create_channel_renderer_instance (quiet_env :: (nat, nat) env) 0 None w2);
        w4 = snd (create_channel_renderer_instance (quiet_env :: (nat, nat) env) 0 None w3)
    in renderers w3 = [0, 1, 2] \<and> calls w3 = [] \<and>
       renderers w4 = [1, 2, 3] \<and> calls w4 = [Deactivate 0])"
  using spec_scenario_max2 [of "quiet_env :: (nat, nat) env" "0::nat"] by (simp add: quiet_env_def)

text \<open>C21: A renderer can be registered in the pool while no handle the program returned reaches it: when the initial render throws, the renderer stays in the pool and the caller has nothing to destroy it with.\<close>

theorem unhandled_renderer_reachable:
  "\<exists>w. reachable (render_fails_env :: (nat, nat) env) \<lparr>maxInstances = None\<rparr> ((w :: (nat, nat, nat) world), []) \<and>
       renderers w = [0]"
proof -
  let ?w0 = "init_world \<lparr>maxInstances = None\<rparr> :: (nat, nat, nat) world"
  let ?w1 = "\<lparr>renderers = [0], config = \<lparr>maxInstances = None\<rparr>, robjs = [0 \<mapsto> ChannelMessageRenderer 0],
       next_rid = 1, sessions = [0 \<mapsto> \<lparr>sess_renderer = 0, sess_content = None\<rparr>], next_cid = 1,
       calls = [ApplyDiff 0 None (Content 5)]\<rparr> :: (nat, nat, nat) world"
  have c: "create_channel_renderer_instance (render_fails_env :: (nat, nat) env) (0::nat) (Some 5) ?w0 =
      (Inl (Raised (ApplyDiff 0 None (Content 5))), ?w1)"
    by (simp add: render_fails_env_def create_renderer_instance_eq init_world_def create_instance_after_check
        evict_if_full_not_full max_instances_def update_container_live Let_def)
  have "reachable (render_fails_env :: (nat, nat) env) \<lparr>maxInstances = None\<rparr> (?w1, [])"
    using reachable_send [OF reachable.init, of "render_fails_env :: (nat, nat) env" "\<lparr>maxInstances = None\<rparr>" "0::nat" "Some 5"]
    by (simp only: c fst_conv snd_conv issued_simps append.simps)
  then show ?thesis by (intro exI [of _ ?w1]) simp
qed

theorem unhandled_renderer_reachable_witness:
  "\<exists>w. reachable (render_fails_env :: (nat, nat) env) \<lparr>maxInstances = None\<rparr> ((w :: (nat, nat, nat) world), []) \<and>
       0 \<in> set (renderers w)"
  using unhandled_renderer_reachable by auto

text \<open>C29: Exactly one instance per renderer: in every reachable state two handles the program holds with the same renderer are the same handle, and no renderer owns two containers.\<close>

theorem one_instance_per_renderer:
  assumes "reachable E cfg (w, hs)" and "i1 \<in> set hs" and "i2 \<in> set hs"
    and "inst_renderer i1 = inst_renderer i2"
  shows "i1 = i2 \<and> inj_on (owner w) (dom (owner w))"
proof -
  from reachable_heap_ok [OF assms(1)] have inj: "inj_on (owner w) (dom (owner w))"
    by (simp add: heap_ok_def)
  from reachable_inv [OF assms(1)]
  have own: "\<forall>inst\<in>set hs. owner w (inst_container inst) = Some (inst_renderer inst)"
    and dist: "distinct (map inst_container hs)"
    by (simp_all add: reacord_inv_def)
  from own assms(2,3) have o1: "owner w (inst_container i1) = Some (inst_renderer i1)"
    and o2: "owner w (inst_container i2) = Some (inst_renderer i2)" by blast+
  with assms(4) have "owner w (inst_container i1) = owner w (inst_container i2)" by simp
  moreover have "inst_container i1 \<in> dom (owner w)" "inst_container i2 \<in> dom (owner w)"
    using o1 o2 by blast+
  ultimately have "inst_container i1 = inst_container i2" using inj by (auto dest: inj_onD)
  moreover from dist have "inj_on inst_container (set hs)" by (simp add: distinct_map)
  ultimately have "i1 = i2" using assms(2,3) by (auto dest: inj_onD)
  with inj show ?thesis by blast
qed

theorem one_instance_per_renderer_witness:
  "reachable (quiet_env :: (nat, nat) env) bound2 (two_channels (0::nat), [handle 0, handle 1]) \<and>
   handle 1 \<in> set [handle 0, handle 1] \<and> inst_renderer (handle 1) = inst_renderer (handle 1) \<and>
   handle 1 = handle 1 \<and> inj_on (owner (two_channels (0::nat) :: (nat, nat, nat) world))
     (dom (owner (two_channels (0::nat) :: (nat, nat, nat) world)))"
  using one_instance_per_renderer [OF reachable_sends_bound2(2) [of "quiet_env :: (nat, nat) env" "0::nat"],
      of "handle 1" "handle 1"]
    reachable_sends_bound2(2) [of "quiet_env :: (nat, nat) env" "0::nat"]
  by simp

end
